theory Spec2Isabelle
  imports Main "HOL-Library.AList"
begin

section \<open>Parsed notebook trees\<close>

text \<open>
  The value \<open>json.loads\<close> returns: \<open>None\<close>, a bool, an int, a float, a str, a list or a
  dict. The script never looks inside a float, so its representation is the type
  parameter \<open>'f\<close>. A dict is an association list in insertion order; \<open>d.get(k)\<close> is
  \<open>map_of d k\<close>, \<open>del d[k]\<close> is \<open>AList.delete k d\<close> and \<open>d[k] = v\<close> is
  \<open>AList.update k v d\<close> (the value is replaced in place when the key exists and the entry is
  appended otherwise). A parsed tree shares no object between two places, so mutation in
  place is the rebuilding of the tree around the changed mapping.
\<close>

datatype 'f json =
    JNull
  | JBool bool
  | JInt int
  | JFloat 'f
  | JStr string
  | JList "'f json list"
  | JDict "(string \<times> 'f json) list"

datatype error = AttributeError | TypeError | ValueError | FileNotFoundError | RecursionError

section \<open>fix_widgets_metadata\<close>

text \<open>\<open>x is None\<close> for the result of \<open>d.get(k)\<close>: the key is missing or its value is null.\<close>

definition is_None :: "'f json option \<Rightarrow> bool" where
  "is_None v = (case v of None \<Rightarrow> True | Some JNull \<Rightarrow> True | Some _ \<Rightarrow> False)"

text \<open>
  Lines 49-58 and, with \<open>cmeta\<close> for \<open>meta\<close>, lines 63-70: the block run on one metadata
  mapping. The result is the value assigned to \<open>changed\<close> by the block (False when it
  assigns nothing) and the mapping after the block.
\<close>

definition fix_widgets_block ::
  "bool \<Rightarrow> (string \<times> 'f json) list \<Rightarrow> bool \<times> (string \<times> 'f json) list" where
  "fix_widgets_block remove_widgets meta =
     (let widgets = map_of meta ''widgets'' in
      if \<not> is_None widgets then
        if remove_widgets then (True, AList.delete ''widgets'' meta)
        else (case widgets of
                Some (JDict ws) \<Rightarrow>
                  if ''state'' \<notin> set (map fst ws)
                  then (True, AList.update ''widgets''
                                (JDict (AList.update ''state'' (JDict []) ws)) meta)
                  else (False, meta)
              | _ \<Rightarrow> (False, meta))
      else (False, meta))"

text \<open>
  \<open>x.get("metadata", {})\<close> followed by the block, for \<open>x\<close> the document (lines 48-58) or a
  cell (lines 62-70). Only a dict has \<open>get\<close>: on any other \<open>x\<close>, and on a metadata value
  that is present and not a dict, the attribute lookup raises. When the key is missing
  the default is a new empty dict that is not part of the tree, and the block does
  nothing.
\<close>

definition fix_metadata_of :: "bool \<Rightarrow> 'f json \<Rightarrow> error + bool \<times> 'f json" where
  "fix_metadata_of remove_widgets x =
     (case x of
        JDict kvs \<Rightarrow>
          (case map_of kvs ''metadata'' of
             None \<Rightarrow> Inr (False, x)
           | Some (JDict meta) \<Rightarrow>
               (case fix_widgets_block remove_widgets meta of
                  (changed, meta') \<Rightarrow>
                    Inr (changed, JDict (AList.update ''metadata'' (JDict meta') kvs)))
           | Some _ \<Rightarrow> Inl AttributeError)
      | _ \<Rightarrow> Inl AttributeError)"

text \<open>The body of the loop of line 61 over the elements of a list, first error wins.\<close>

fun fix_cells :: "bool \<Rightarrow> 'f json list \<Rightarrow> error + bool \<times> 'f json list" where
  "fix_cells remove_widgets [] = Inr (False, [])"
| "fix_cells remove_widgets (cell # cells) =
     (case fix_metadata_of remove_widgets cell of
        Inl e \<Rightarrow> Inl e
      | Inr (changed, cell') \<Rightarrow>
          (case fix_cells remove_widgets cells of
             Inl e \<Rightarrow> Inl e
           | Inr (changed', cells') \<Rightarrow> Inr (changed \<or> changed', cell' # cells')))"

text \<open>
  \<open>for cell in cells\<close> for any value under the key \<open>cells\<close>: a list gives its elements; a
  dict gives its keys and a str its characters, which are strs without \<open>get\<close>, so the
  first iteration raises; the other values are not iterable.
\<close>

definition for_cells :: "bool \<Rightarrow> 'f json \<Rightarrow> error + bool \<times> 'f json" where
  "for_cells remove_widgets cells =
     (case cells of
        JList cs \<Rightarrow>
          (case fix_cells remove_widgets cs of
             Inl e \<Rightarrow> Inl e
           | Inr (changed, cs') \<Rightarrow> Inr (changed, JList cs'))
      | JDict d \<Rightarrow> (case d of [] \<Rightarrow> Inr (False, cells) | _ # _ \<Rightarrow> Inl AttributeError)
      | JStr s \<Rightarrow> (case s of [] \<Rightarrow> Inr (False, cells) | _ # _ \<Rightarrow> Inl AttributeError)
      | _ \<Rightarrow> Inl TypeError)"

text \<open>
  The whole function: the returned flag and the tree after the call, or the exception.
  An exception leaves the function before \<open>return\<close>; the only caller does not catch it
  and drops the tree, so the tree at that moment is not part of the result.
\<close>

definition fix_widgets_metadata :: "bool \<Rightarrow> 'f json \<Rightarrow> error + bool \<times> 'f json" where
  "fix_widgets_metadata remove_widgets nb_data =
     (case fix_metadata_of remove_widgets nb_data of
        Inl e \<Rightarrow> Inl e
      | Inr (changed, nb1) \<Rightarrow>
          (case nb1 of
             JDict kvs \<Rightarrow>
               (case map_of kvs ''cells'' of
                  None \<Rightarrow> Inr (changed, nb1)
                | Some cells \<Rightarrow>
                    (case for_cells remove_widgets cells of
                       Inl e \<Rightarrow> Inl e
                     | Inr (changed', cells') \<Rightarrow>
                         Inr (changed \<or> changed', JDict (AList.update ''cells'' cells' kvs))))
           | _ \<Rightarrow> Inl AttributeError))"

section \<open>Paths\<close>

text \<open>
  A \<open>pathlib.Path\<close> is its text, in the form pathlib prints it, with \<open>/\<close> between the
  components. The name is the last component. \<open>suffix\<close> and \<open>with_suffix\<close> follow
  pathlib's own code (CPython 3.12): with \<open>i\<close> the index of the last dot of the name,
  the suffix is the name from \<open>i\<close> on when \<open>0 < i < len(name) - 1\<close> and empty otherwise;
  \<open>with_suffix\<close> refuses a new suffix that holds a separator, that does not start with a
  dot or that is a lone dot, refuses an empty name, and otherwise puts the new suffix in
  the place of the old one, or after the name when there is none.
\<close>

type_synonym path = string

definition path_name :: "path \<Rightarrow> string" where
  "path_name p = rev (takeWhile (\<lambda>c. c \<noteq> CHR ''/'') (rev p))"

definition path_parent :: "path \<Rightarrow> string" where
  "path_parent p = rev (dropWhile (\<lambda>c. c \<noteq> CHR ''/'') (rev p))"

definition suffix :: "path \<Rightarrow> string" where
  "suffix p =
     (let name = path_name p;
          ext = rev (takeWhile (\<lambda>c. c \<noteq> CHR ''.'') (rev name))
      in if CHR ''.'' \<in> set name \<and> ext \<noteq> [] \<and> Suc (length ext) < length name
         then CHR ''.'' # ext else [])"

definition with_suffix :: "path \<Rightarrow> string \<Rightarrow> error + path" where
  "with_suffix p s =
     (if CHR ''/'' \<in> set s then Inl ValueError
      else if (s \<noteq> [] \<and> hd s \<noteq> CHR ''.'') \<or> s = ''.'' then Inl ValueError
      else
        let name = path_name p in
        if name = [] then Inl ValueError
        else
          let old_suffix = suffix p in
          if old_suffix = [] then Inr (path_parent p @ name @ s)
          else Inr (path_parent p @ take (length name - length old_suffix) name @ s))"

section \<open>Files, output and the library\<close>

text \<open>
  The file system is a directory of regular files: \<open>links\<close> gives for each name the
  number of the inode it refers to, and \<open>inodes\<close> the content of each inode. Two names
  with the same inode number are hard links of one file, and what is written through one
  is read through the other. The content of an inode is UTF-8 text, or bytes that
  \<open>read_text(encoding="utf-8")\<close> cannot decode, kept with the text of the exception the
  read raises. \<open>calls\<close> records the calls that change the file system, oldest first, and
  \<open>out\<close> the lines printed, oldest first. Failures of the operating system beyond a
  missing source file (permissions, a full disk) are not modelled.
\<close>

datatype content = Text string | Undecodable string

datatype fs_call = Replace path path | WriteText path string

record world =
  links :: "(path \<times> nat) list"
  inodes :: "nat \<Rightarrow> content"
  calls :: "fs_call list"
  out :: "string list"

text \<open>
  What the script takes from the standard library, as parameters: \<open>json.loads\<close> (the
  tree, or the text of the exception it raises), \<open>json.dumps(tree, indent=n)\<close> (the
  text, or the exception it raises, as it does with RecursionError on a tree nested
  deeper than the interpreter's limit), and the text of the exception raised for a path
  without a file.
\<close>

record 'f lib =
  loads :: "string \<Rightarrow> string + 'f json"
  dumps :: "'f json \<Rightarrow> nat \<Rightarrow> error + string"
  no_such_file :: "path \<Rightarrow> string"

definition read_text :: "'f lib \<Rightarrow> world \<Rightarrow> path \<Rightarrow> string + string" where
  "read_text lib w p =
     (case map_of (links w) p of
        None \<Rightarrow> Inl (no_such_file lib p)
      | Some i \<Rightarrow> (case inodes w i of Undecodable exc \<Rightarrow> Inl exc | Text t \<Rightarrow> Inr t))"

text \<open>
  \<open>Path.replace\<close>, the rename of the operating system: it fails without a source; when
  source and target are names of the same inode it does nothing and succeeds; otherwise
  the target name, existing or not, refers to the inode of the source afterwards and the
  source name is gone.
\<close>

definition replace :: "path \<Rightarrow> path \<Rightarrow> world \<Rightarrow> error + world" where
  "replace src dst w =
     (case map_of (links w) src of
        None \<Rightarrow> Inl FileNotFoundError
      | Some i \<Rightarrow>
          if map_of (links w) dst = Some i
          then Inr (w\<lparr>calls := calls w @ [Replace src dst]\<rparr>)
          else Inr (w\<lparr>links := AList.update dst i (AList.delete src (links w)),
                      calls := calls w @ [Replace src dst]\<rparr>))"

text \<open>An inode number that no name refers to.\<close>

definition fresh_inode :: "world \<Rightarrow> nat" where
  "fresh_inode w = Suc (fold max (map snd (links w)) 0)"

text \<open>
  \<open>Path.write_text\<close> opens the path for writing: an existing file is truncated and
  written in place, in its inode, and a missing one is created with an inode of its own.
\<close>

definition write_text :: "path \<Rightarrow> string \<Rightarrow> world \<Rightarrow> world" where
  "write_text p t w =
     (case map_of (links w) p of
        Some i \<Rightarrow> w\<lparr>inodes := (inodes w)(i := Text t), calls := calls w @ [WriteText p t]\<rparr>
      | None \<Rightarrow>
          (let i = fresh_inode w in
           w\<lparr>links := AList.update p i (links w), inodes := (inodes w)(i := Text t),
             calls := calls w @ [WriteText p t]\<rparr>))"

definition print :: "string \<Rightarrow> world \<Rightarrow> world" where
  "print line w = w\<lparr>out := out w @ [line]\<rparr>"

section \<open>process_notebooks\<close>

text \<open>
  The body of the loop (lines 76-90) for one path: the world after it, and the exception
  that leaves the loop, if any. Only the read and the parse stand inside \<open>try\<close>; an
  exception of \<open>fix_widgets_metadata\<close>, of \<open>with_suffix\<close>, of \<open>replace\<close> or of
  \<open>json.dumps\<close> is not caught. The argument of \<open>write_text\<close> on line 88 is evaluated
  after the rename of line 87, so an exception of \<open>json.dumps\<close> leaves the world as the
  rename made it.
\<close>

definition process_path :: "'f lib \<Rightarrow> bool \<Rightarrow> path \<Rightarrow> world \<Rightarrow> world \<times> error option" where
  "process_path lib remove_widgets nb_path w =
     (if suffix nb_path \<noteq> ''.ipynb'' then (w, None)
      else
        case read_text lib w nb_path of
          Inl exc \<Rightarrow> (print (''Error reading '' @ nb_path @ '': '' @ exc) w, None)
        | Inr text \<Rightarrow>
            (case loads lib text of
               Inl exc \<Rightarrow> (print (''Error reading '' @ nb_path @ '': '' @ exc) w, None)
             | Inr nb_data \<Rightarrow>
                 (case fix_widgets_metadata remove_widgets nb_data of
                    Inl e \<Rightarrow> (w, Some e)
                  | Inr (changed, nb_data') \<Rightarrow>
                      if changed then
                        (case with_suffix nb_path (suffix nb_path @ ''.bak'') of
                           Inl e \<Rightarrow> (w, Some e)
                         | Inr backup_path \<Rightarrow>
                             (case replace nb_path backup_path w of
                                Inl e \<Rightarrow> (w, Some e)
                              | Inr w1 \<Rightarrow>
                                  (case dumps lib nb_data' 2 of
                                     Inl e \<Rightarrow> (w1, Some e)
                                   | Inr new_text \<Rightarrow>
                                       (print (''Fixed widgets metadata in '' @ nb_path @
                                               '', backup saved to '' @ backup_path)
                                          (write_text nb_path new_text w1), None))))
                      else (w, None))))"

fun process_notebooks :: "'f lib \<Rightarrow> path list \<Rightarrow> bool \<Rightarrow> world \<Rightarrow> world \<times> error option" where
  "process_notebooks lib [] remove_widgets w = (w, None)"
| "process_notebooks lib (nb_path # paths) remove_widgets w =
     (case process_path lib remove_widgets nb_path w of
        (w', Some e) \<Rightarrow> (w', Some e)
      | (w', None) \<Rightarrow> process_notebooks lib paths remove_widgets w')"

section \<open>Documents and their metadata locations\<close>

text \<open>
  The data model of the specification: a document is a mapping whose metadata, when
  present, is a mapping and whose cells, when present, are a sequence of cells; a cell is
  a mapping whose metadata, when present, is a mapping.
\<close>

definition metadata_of :: "'f json \<Rightarrow> (string \<times> 'f json) list option" where
  "metadata_of x =
     (case x of
        JDict kvs \<Rightarrow> (case map_of kvs ''metadata'' of Some (JDict meta) \<Rightarrow> Some meta | _ \<Rightarrow> None)
      | _ \<Rightarrow> None)"

definition widgets_of :: "'f json \<Rightarrow> 'f json option" where
  "widgets_of x = (case metadata_of x of None \<Rightarrow> None | Some meta \<Rightarrow> map_of meta ''widgets'')"

definition cells_of :: "'f json \<Rightarrow> 'f json list" where
  "cells_of nb =
     (case nb of
        JDict kvs \<Rightarrow> (case map_of kvs ''cells'' of Some (JList cs) \<Rightarrow> cs | _ \<Rightarrow> [])
      | _ \<Rightarrow> [])"

definition is_cell :: "'f json \<Rightarrow> bool" where
  "is_cell x =
     (case x of
        JDict kvs \<Rightarrow>
          (case map_of kvs ''metadata'' of None \<Rightarrow> True | Some (JDict _) \<Rightarrow> True | Some _ \<Rightarrow> False)
      | _ \<Rightarrow> False)"

definition is_document :: "'f json \<Rightarrow> bool" where
  "is_document nb =
     (is_cell nb \<and>
      (case nb of
         JDict kvs \<Rightarrow>
           (case map_of kvs ''cells'' of
              None \<Rightarrow> True
            | Some (JList cs) \<Rightarrow> list_all is_cell cs
            | Some _ \<Rightarrow> False)
       | _ \<Rightarrow> False))"

text \<open>
  The places the function inspects: the document itself and each of its cells. The
  widgets entry of a place is the value under \<open>widgets\<close> in its metadata mapping.
\<close>

definition locations :: "'f json \<Rightarrow> 'f json list" where
  "locations nb = nb # cells_of nb"

definition has_widgets_key :: "'f json \<Rightarrow> bool" where
  "has_widgets_key x =
     (case metadata_of x of None \<Rightarrow> False | Some meta \<Rightarrow> ''widgets'' \<in> set (map fst meta))"

definition has_metadata_key :: "'f json \<Rightarrow> bool" where
  "has_metadata_key x = (case x of JDict kvs \<Rightarrow> ''metadata'' \<in> set (map fst kvs) | _ \<Rightarrow> False)"

text \<open>What the block does to the metadata mapping of a place, if the place has one.\<close>

definition stable_meta :: "bool \<Rightarrow> (string \<times> 'f json) list option \<Rightarrow> bool" where
  "stable_meta r m =
     (case m of None \<Rightarrow> True | Some meta \<Rightarrow> fix_widgets_block r meta = (False, meta))"

definition meta_changed :: "bool \<Rightarrow> (string \<times> 'f json) list option \<Rightarrow> bool" where
  "meta_changed r m = (case m of None \<Rightarrow> False | Some meta \<Rightarrow> fst (fix_widgets_block r meta))"

definition meta_after ::
  "bool \<Rightarrow> (string \<times> 'f json) list option \<Rightarrow> (string \<times> 'f json) list option" where
  "meta_after r m = map_option (\<lambda>meta. snd (fix_widgets_block r meta)) m"

section \<open>Entries of a tree\<close>

text \<open>
  An entry of a tree is reached by a path of selectors: a key of a mapping or an index
  of a list. \<open>kept v v'\<close> says that the value of an entry is kept: a scalar is the same
  scalar, a list is a list of the same length and a mapping is a mapping (their own
  entries are reached by longer paths). \<open>added_state t p v'\<close> says that the entry \<open>p\<close>
  with value \<open>v'\<close> is a \<open>state\<close> key mapped to the empty mapping, inside a \<open>widgets\<close>
  mapping of \<open>t\<close> that had no \<open>state\<close> key: the path ends with the keys \<open>widgets\<close> and
  \<open>state\<close>, and the path without its last key leads in \<open>t\<close> to a mapping without
  \<open>state\<close>.
\<close>

datatype sel = Key string | Idx nat

fun lookup :: "'f json \<Rightarrow> sel list \<Rightarrow> 'f json option" where
  "lookup t [] = Some t"
| "lookup (JDict d) (Key k # p) = (case map_of d k of None \<Rightarrow> None | Some v \<Rightarrow> lookup v p)"
| "lookup (JList xs) (Idx i # p) = (if i < length xs then lookup (xs ! i) p else None)"
| "lookup _ (_ # _) = None"

definition kept :: "'f json \<Rightarrow> 'f json \<Rightarrow> bool" where
  "kept v v' =
     (case v of
        JDict _ \<Rightarrow> (case v' of JDict _ \<Rightarrow> True | _ \<Rightarrow> False)
      | JList xs \<Rightarrow> (case v' of JList ys \<Rightarrow> length ys = length xs | _ \<Rightarrow> False)
      | _ \<Rightarrow> v' = v)"

definition added_state :: "'f json \<Rightarrow> sel list \<Rightarrow> 'f json \<Rightarrow> bool" where
  "added_state t p v' =
     (v' = JDict [] \<and> 2 \<le> length p \<and>
      drop (length p - 2) p = [Key ''widgets'', Key ''state''] \<and>
      (case lookup t (butlast p) of
         Some (JDict ws) \<Rightarrow> ''state'' \<notin> set (map fst ws)
       | _ \<Rightarrow> False))"

text \<open>
  \<open>grows t t'\<close>: every entry of \<open>t\<close> is kept in \<open>t'\<close>, and every entry of \<open>t'\<close> that \<open>t\<close>
  does not have is an added \<open>state\<close>. \<open>entries_grow\<close> is the same for the values under
  each key of two mappings.
\<close>

definition grows :: "'f json \<Rightarrow> 'f json \<Rightarrow> bool" where
  "grows t t' \<longleftrightarrow>
     (\<forall>p v. lookup t p = Some v \<longrightarrow> (\<exists>v'. lookup t' p = Some v' \<and> kept v v')) \<and>
     (\<forall>p v'. lookup t' p = Some v' \<longrightarrow> lookup t p = None \<longrightarrow> added_state t p v')"

definition entries_grow :: "(string \<times> 'f json) list \<Rightarrow> (string \<times> 'f json) list \<Rightarrow> bool" where
  "entries_grow d d' \<longleftrightarrow>
     (\<forall>k. case map_of d k of None \<Rightarrow> map_of d' k = None
          | Some v \<Rightarrow> (\<exists>v'. map_of d' k = Some v' \<and> grows v v'))"

section \<open>Sample documents\<close>

text \<open>A notebook without any widgets entry.\<close>

definition nb_plain :: "unit json" where
  "nb_plain =
     JDict [(''metadata'', JDict [(''kernelspec'', JStr ''python3'')]),
            (''cells'', JList [JDict [(''cell_type'', JStr ''code''), (''metadata'', JDict [])],
                               JDict [(''cell_type'', JStr ''markdown'')]]),
            (''nbformat'', JInt 4)]"

text \<open>
  A notebook whose document-level widgets entry lacks \<open>state\<close>, with one cell whose
  widgets entry has it, one cell whose widgets entry is not a mapping and one cell
  without metadata.
\<close>

definition nb_widgets :: "unit json" where
  "nb_widgets =
     JDict [(''metadata'', JDict [(''widgets'', JDict [(''a'', JInt 1)])]),
            (''cells'', JList [JDict [(''metadata'',
                                        JDict [(''widgets'', JDict [(''state'', JDict [(''x'', JInt 1)])])])],
                               JDict [(''metadata'', JDict [(''widgets'', JInt 3)])],
                               JDict [(''source'', JStr ''x'')]])]"

text \<open>The same notebook after the insertion of the missing \<open>state\<close>.\<close>

definition nb_widgets_fixed :: "unit json" where
  "nb_widgets_fixed =
     JDict [(''metadata'', JDict [(''widgets'', JDict [(''a'', JInt 1), (''state'', JDict [])])]),
            (''cells'', JList [JDict [(''metadata'',
                                        JDict [(''widgets'', JDict [(''state'', JDict [(''x'', JInt 1)])])])],
                               JDict [(''metadata'', JDict [(''widgets'', JInt 3)])],
                               JDict [(''source'', JStr ''x'')]])]"

text \<open>And after the removal of its widgets entries.\<close>

definition nb_widgets_removed :: "unit json" where
  "nb_widgets_removed =
     JDict [(''metadata'', JDict []),
            (''cells'', JList [JDict [(''metadata'', JDict [])],
                               JDict [(''metadata'', JDict [])],
                               JDict [(''source'', JStr ''x'')]])]"


section \<open>Sample files\<close>

text \<open>
  A directory with a notebook whose document-level widgets entry lacks \<open>state\<close>, a
  notebook whose only widgets entry has it, a file with the notebook extension that is
  not JSON, a file with the notebook extension whose JSON is a list, and a notebook that
  stands for one nested too deep for the serializer. The library parses these texts,
  fails on every other text, prints the first notebook after its repair and raises on
  the last one.
\<close>

definition tree_a :: "unit json" where
  "tree_a = JDict [(''metadata'', JDict [(''widgets'', JDict [(''a'', JInt 1)])])]"

definition tree_a_fixed :: "unit json" where
  "tree_a_fixed =
     JDict [(''metadata'', JDict [(''widgets'', JDict [(''a'', JInt 1), (''state'', JDict [])])])]"

definition tree_c :: "unit json" where
  "tree_c =
     JDict [(''cells'',
             JList [JDict [(''metadata'',
                            JDict [(''widgets'', JDict [(''state'', JDict [(''x'', JInt 1)])])])]])]"

definition tree_deep :: "unit json" where
  "tree_deep = JDict [(''metadata'', JDict [(''widgets'', JDict [(''deep'', JList [JList []])])])]"

definition tree_deep_fixed :: "unit json" where
  "tree_deep_fixed =
     JDict [(''metadata'',
             JDict [(''widgets'', JDict [(''deep'', JList [JList []]), (''state'', JDict [])])])]"

definition text_a :: string where
  "text_a = ''{\"metadata\": {\"widgets\": {\"a\": 1}}}''"

definition text_c :: string where
  "text_c = ''{\"cells\": [{\"metadata\": {\"widgets\": {\"state\": {\"x\": 1}}}}]}''"

definition text_deep :: string where
  "text_deep = ''{\"metadata\": {\"widgets\": {\"deep\": [[]]}}}''"

definition text_a_fixed :: string where
  "text_a_fixed =
     ''{'' @ [CHR 0x0A] @
     ''  \"metadata\": {'' @ [CHR 0x0A] @
     ''    \"widgets\": {'' @ [CHR 0x0A] @
     ''      \"a\": 1,'' @ [CHR 0x0A] @
     ''      \"state\": {}'' @ [CHR 0x0A] @
     ''    }'' @ [CHR 0x0A] @
     ''  }'' @ [CHR 0x0A] @
     ''}''"

definition sample_lib :: "unit lib" where
  "sample_lib =
     \<lparr>loads = (\<lambda>t. if t = text_a then Inr tree_a
                   else if t = text_c then Inr tree_c
                   else if t = text_deep then Inr tree_deep
                   else if t = ''[]'' then Inr (JList [])
                   else Inl ''Expecting value: line 1 column 1 (char 0)''),
      dumps = (\<lambda>t n. if t = tree_a_fixed \<and> n = 2 then Inr text_a_fixed
                     else if t = tree_deep_fixed then Inl RecursionError
                     else Inr []),
      no_such_file = (\<lambda>p. ''[Errno 2] No such file or directory: '' @ [CHR 0x27] @ p @ [CHR 0x27])\<rparr>"

definition sample_world :: world where
  "sample_world =
     \<lparr>links = [(''nb/a.ipynb'', 1), (''nb/c.ipynb'', 2), (''nb/broken.ipynb'', 3),
               (''nb/list.ipynb'', 4), (''nb/deep.ipynb'', 5)],
      inodes = (\<lambda>i. if i = 1 then Text text_a
                    else if i = 2 then Text text_c
                    else if i = 4 then Text ''[]''
                    else if i = 5 then Text text_deep
                    else Text ''not json''),
      calls = [],
      out = []\<rparr>"

text \<open>
  A directory in which the backup name of the first notebook exists already, as a hard
  link of the notebook itself.
\<close>

definition linked_world :: world where
  "linked_world =
     \<lparr>links = [(''nb/a.ipynb'', 1), (''nb/a.ipynb.bak'', 1)],
      inodes = (\<lambda>i. Text text_a),
      calls = [],
      out = []\<rparr>"

section \<open>How the function acts on a document\<close>

lemma update_absent: "k \<notin> fst ` set al \<Longrightarrow> AList.update k v al = al @ [(k, v)]"
  by (induction al) auto

lemma cell_result:
  assumes "is_cell x"
  shows "\<exists>x'. fix_metadata_of r x = Inr (meta_changed r (metadata_of x), x') \<and>
          metadata_of x' = meta_after r (metadata_of x) \<and> is_cell x' \<and>
          (\<exists>kvs kvs'. x = JDict kvs \<and> x' = JDict kvs' \<and>
              (\<forall>k. k \<noteq> ''metadata'' \<longrightarrow> map_of kvs' k = map_of kvs k)) \<and>
          (has_metadata_key x' \<longleftrightarrow> has_metadata_key x) \<and>
          (stable_meta r (metadata_of x) \<longrightarrow> x' = x)"
proof -
  from assms obtain kvs where x: "x = JDict kvs"
    by (auto simp: is_cell_def split: json.splits)
  show ?thesis
  proof (cases "map_of kvs ''metadata''")
    case None
    then show ?thesis using x
      by (simp add: fix_metadata_of_def metadata_of_def meta_changed_def meta_after_def is_cell_def)
  next
    case (Some m)
    with assms x obtain meta where m: "m = JDict meta"
      by (auto simp: is_cell_def split: json.splits)
    obtain c meta' where b: "fix_widgets_block r meta = (c, meta')"
      by (cases "fix_widgets_block r meta")
    have k: "''metadata'' \<in> fst ` set kvs" using Some map_of_eq_None_iff[of kvs "''metadata''"] by auto
    have "fix_metadata_of r x = Inr (c, JDict (AList.update ''metadata'' (JDict meta') kvs))"
      using x Some m b by (simp add: fix_metadata_of_def)
    moreover have "c = meta_changed r (metadata_of x)"
      using x Some m b by (simp add: metadata_of_def meta_changed_def)
    moreover have "metadata_of (JDict (AList.update ''metadata'' (JDict meta') kvs)) = meta_after r (metadata_of x)"
      using x Some m b by (simp add: metadata_of_def meta_after_def update_conv')
    moreover have "is_cell (JDict (AList.update ''metadata'' (JDict meta') kvs))"
      by (simp add: is_cell_def update_conv')
    moreover have "\<forall>k. k \<noteq> ''metadata'' \<longrightarrow> map_of (AList.update ''metadata'' (JDict meta') kvs) k = map_of kvs k"
      by (simp add: update_conv')
    moreover have "has_metadata_key (JDict (AList.update ''metadata'' (JDict meta') kvs)) \<longleftrightarrow> has_metadata_key x"
      using x k by (simp add: has_metadata_key_def update_keys)
    moreover have "stable_meta r (metadata_of x) \<longrightarrow> JDict (AList.update ''metadata'' (JDict meta') kvs) = x"
      using x Some m b by (simp add: stable_meta_def metadata_of_def update_triv)
    ultimately show ?thesis using x by blast
  qed
qed

lemma cells_result:
  assumes "list_all is_cell cs"
  shows "\<exists>cs'. fix_cells r cs = Inr (\<exists>x\<in>set cs. meta_changed r (metadata_of x), cs') \<and>
          map metadata_of cs' = map (\<lambda>x. meta_after r (metadata_of x)) cs \<and> list_all is_cell cs' \<and>
          map has_metadata_key cs' = map has_metadata_key cs \<and>
          ((\<forall>x\<in>set cs. stable_meta r (metadata_of x)) \<longrightarrow> cs' = cs)"
  using assms
proof (induction cs)
  case Nil
  then show ?case by simp
next
  case (Cons a cs)
  from Cons.prems have "is_cell a" by simp
  from cell_result[OF this, of r] obtain a' where
    a: "fix_metadata_of r a = Inr (meta_changed r (metadata_of a), a')"
       "metadata_of a' = meta_after r (metadata_of a)" "is_cell a'"
       "has_metadata_key a' \<longleftrightarrow> has_metadata_key a"
       "stable_meta r (metadata_of a) \<longrightarrow> a' = a" by blast
  from Cons obtain cs' where
    cs: "fix_cells r cs = Inr (\<exists>x\<in>set cs. meta_changed r (metadata_of x), cs')"
        "map metadata_of cs' = map (\<lambda>x. meta_after r (metadata_of x)) cs" "list_all is_cell cs'"
        "map has_metadata_key cs' = map has_metadata_key cs"
        "(\<forall>x\<in>set cs. stable_meta r (metadata_of x)) \<longrightarrow> cs' = cs" by auto
  have "fix_cells r (a # cs) = Inr (\<exists>x\<in>set (a # cs). meta_changed r (metadata_of x), a' # cs')"
    using a(1) cs(1) by simp
  then show ?case using a cs by auto
qed

lemma document_result:
  assumes "is_document nb"
  shows "\<exists>nb'. fix_widgets_metadata r nb =
                 Inr (\<exists>x\<in>set (locations nb). meta_changed r (metadata_of x), nb') \<and>
          map metadata_of (locations nb') = map (\<lambda>x. meta_after r (metadata_of x)) (locations nb) \<and>
          map has_metadata_key (locations nb') = map has_metadata_key (locations nb) \<and>
          is_document nb' \<and>
          ((\<forall>x\<in>set (locations nb). stable_meta r (metadata_of x)) \<longrightarrow> nb' = nb)"
proof -
  from assms have c: "is_cell nb" by (simp add: is_document_def)
  from cell_result[OF c, of r] obtain nb1 kvs kvs1 where
    n: "fix_metadata_of r nb = Inr (meta_changed r (metadata_of nb), nb1)"
       "metadata_of nb1 = meta_after r (metadata_of nb)" "is_cell nb1"
       "nb = JDict kvs" "nb1 = JDict kvs1" "\<forall>k. k \<noteq> ''metadata'' \<longrightarrow> map_of kvs1 k = map_of kvs k"
       "has_metadata_key nb1 \<longleftrightarrow> has_metadata_key nb"
       "stable_meta r (metadata_of nb) \<longrightarrow> nb1 = nb" by blast
  have ce: "map_of kvs1 ''cells'' = map_of kvs ''cells''" using n(6) by simp
  show ?thesis
  proof (cases "map_of kvs ''cells''")
    case None
    have "fix_widgets_metadata r nb = Inr (meta_changed r (metadata_of nb), nb1)"
      using n(1,5) ce None by (simp add: fix_widgets_metadata_def)
    moreover have "cells_of nb = []" "cells_of nb1 = []"
      using n(4,5) ce None by (simp_all add: cells_of_def)
    moreover have "is_document nb1"
      using n(3,5) ce None by (simp add: is_document_def)
    ultimately show ?thesis using n(2,7,8) by (auto simp: locations_def)
  next
    case (Some cl)
    with assms n(4) obtain cs where cl: "cl = JList cs" and ac: "list_all is_cell cs"
      by (auto simp: is_document_def split: json.splits)
    from cells_result[OF ac, of r] obtain cs' where
      cs: "fix_cells r cs = Inr (\<exists>x\<in>set cs. meta_changed r (metadata_of x), cs')"
        "map metadata_of cs' = map (\<lambda>x. meta_after r (metadata_of x)) cs" "list_all is_cell cs'"
        "map has_metadata_key cs' = map has_metadata_key cs"
        "(\<forall>x\<in>set cs. stable_meta r (metadata_of x)) \<longrightarrow> cs' = cs" by blast
    let ?nb' = "JDict (AList.update ''cells'' (JList cs') kvs1)"
    have 1: "fix_widgets_metadata r nb =
       Inr (meta_changed r (metadata_of nb) \<or> (\<exists>x\<in>set cs. meta_changed r (metadata_of x)), ?nb')"
      using n(1,5) ce Some cl cs(1) by (simp add: fix_widgets_metadata_def for_cells_def)
    have 2: "cells_of nb = cs" using n(4) Some cl by (simp add: cells_of_def)
    have 3: "cells_of ?nb' = cs'" by (simp add: cells_of_def update_conv')
    have 4: "metadata_of ?nb' = metadata_of nb1" using n(5) by (simp add: metadata_of_def update_conv')
    have 5: "is_document ?nb'" using n(3,5) cs(3) by (simp add: is_document_def is_cell_def update_conv')
    have 6: "has_metadata_key ?nb' \<longleftrightarrow> has_metadata_key nb1"
      using n(5) by (auto simp: has_metadata_key_def update_keys)
    have 7: "(\<forall>x\<in>set (locations nb). stable_meta r (metadata_of x)) \<longrightarrow> ?nb' = nb"
    proof
      assume a: "\<forall>x\<in>set (locations nb). stable_meta r (metadata_of x)"
      then have "nb1 = nb" "cs' = cs" using n(8) cs(5) 2 by (auto simp: locations_def)
      then show "?nb' = nb" using n(4,5) Some cl by (simp add: update_triv)
    qed
    show ?thesis using 1 2 3 4 5 6 7 n(2,7) cs(2,4) by (auto simp: locations_def)
  qed
qed

lemma block_no_key: "''widgets'' \<notin> fst ` set meta \<Longrightarrow> fix_widgets_block r meta = (False, meta)"
  by (simp add: fix_widgets_block_def is_None_def map_of_eq_None_iff[THEN iffD2])

lemma block_remove:
  "fix_widgets_block True meta =
     (if is_None (map_of meta ''widgets'') then (False, meta) else (True, AList.delete ''widgets'' meta))"
  by (simp add: fix_widgets_block_def)

lemma block_insert_add:
  "map_of meta ''widgets'' = Some (JDict ws) \<Longrightarrow> ''state'' \<notin> fst ` set ws \<Longrightarrow>
   fix_widgets_block False meta =
     (True, AList.update ''widgets'' (JDict (ws @ [(''state'', JDict [])])) meta)"
  by (simp add: fix_widgets_block_def is_None_def update_absent)

lemma block_insert_keep:
  "\<forall>ws. map_of meta ''widgets'' = Some (JDict ws) \<longrightarrow> ''state'' \<in> fst ` set ws \<Longrightarrow>
   fix_widgets_block False meta = (False, meta)"
  by (auto simp: fix_widgets_block_def is_None_def Let_def split: option.splits json.splits)

lemma block_changed: "fst (fix_widgets_block r meta) \<Longrightarrow> \<not> is_None (map_of meta ''widgets'')"
  by (auto simp: fix_widgets_block_def Let_def split: if_splits)

lemma block_idem:
  "fix_widgets_block r (snd (fix_widgets_block r meta)) = (False, snd (fix_widgets_block r meta))"
proof (cases r)
  case True
  have "map_of (AList.delete ''widgets'' meta) ''widgets'' = None" by (simp add: delete_conv')
  then show ?thesis using True by (simp add: block_remove is_None_def)
next
  case False
  show ?thesis
  proof (cases "\<exists>ws. map_of meta ''widgets'' = Some (JDict ws) \<and> ''state'' \<notin> fst ` set ws")
    case True
    then obtain ws where ws: "map_of meta ''widgets'' = Some (JDict ws)" "''state'' \<notin> fst ` set ws"
      by blast
    let ?m = "AList.update ''widgets'' (JDict (ws @ [(''state'', JDict [])])) meta"
    have "\<forall>ws'. map_of ?m ''widgets'' = Some (JDict ws') \<longrightarrow> ''state'' \<in> fst ` set ws'"
      by (auto simp: update_conv')
    from block_insert_keep[OF this] show ?thesis using False block_insert_add[OF ws] by simp
  next
    case F: False
    then have "fix_widgets_block False meta = (False, meta)" by (intro block_insert_keep) blast
    then show ?thesis using False by simp
  qed
qed

lemma stable_after: "stable_meta r (meta_after r m)"
  by (cases m) (simp_all add: stable_meta_def meta_after_def block_idem)

lemma stable_no_key: "\<not> has_widgets_key x \<Longrightarrow> stable_meta r (metadata_of x)"
  by (auto simp: has_widgets_key_def stable_meta_def block_no_key split: option.splits)

lemma map_eq_list_all2:
  "map f ys = map g xs \<Longrightarrow> (\<And>x y. f y = g x \<Longrightarrow> P x y) \<Longrightarrow> list_all2 P xs ys"
proof (induction xs arbitrary: ys)
  case Nil
  then show ?case by simp
next
  case (Cons x xs)
  then obtain y ys' where "ys = y # ys'" by (cases ys) auto
  with Cons show ?case by auto
qed

lemma stable_not_changed: "stable_meta r m \<Longrightarrow> \<not> meta_changed r m"
  by (cases m) (simp_all add: stable_meta_def meta_changed_def)

lemma meta_changed_iff:
  "meta_changed True (metadata_of x) \<longleftrightarrow> \<not> is_None (widgets_of x)"
  by (auto simp: meta_changed_def widgets_of_def block_remove is_None_def split: option.splits)

lemma meta_after_remove:
  assumes "\<not> is_None (widgets_of x)" and "metadata_of x' = meta_after True (metadata_of x)"
  shows "metadata_of x' \<noteq> None \<and> \<not> has_widgets_key x'"
proof -
  from assms(1) obtain meta where m: "metadata_of x = Some meta" "\<not> is_None (map_of meta ''widgets'')"
    by (cases "metadata_of x") (auto simp: widgets_of_def is_None_def)
  then have "metadata_of x' = Some (AList.delete ''widgets'' meta)"
    using assms(2) by (simp add: meta_after_def block_remove)
  then show ?thesis using delete_notin_dom[of "''widgets''" meta] by (simp add: has_widgets_key_def)
qed

section \<open>The sample documents under the function\<close>

lemma nb_plain_document: "is_document nb_plain"
  by (simp add: nb_plain_def is_document_def is_cell_def)

lemma nb_widgets_document: "is_document nb_widgets"
  by (simp add: nb_widgets_def is_document_def is_cell_def)

lemma nb_widgets_fixed_document: "is_document nb_widgets_fixed"
  by (simp add: nb_widgets_fixed_def is_document_def is_cell_def)

lemma fix_insert_nb_widgets: "fix_widgets_metadata False nb_widgets = Inr (True, nb_widgets_fixed)"
  by (simp add: nb_widgets_def nb_widgets_fixed_def fix_widgets_metadata_def fix_metadata_of_def
        fix_widgets_block_def for_cells_def is_None_def)

lemma fix_remove_nb_widgets: "fix_widgets_metadata True nb_widgets = Inr (True, nb_widgets_removed)"
  by (simp add: nb_widgets_def nb_widgets_removed_def fix_widgets_metadata_def fix_metadata_of_def
        fix_widgets_block_def for_cells_def is_None_def AList.delete_eq)

section \<open>Removal mode\<close>

text \<open>
  C1 (as amended). In removal mode, on every document, the call returns; at the document
  and at each cell, a widgets entry whose value is not null is gone after the call, its
  metadata mapping still being there; and the call returns true exactly when some place
  had a widgets entry whose value is not null. A widgets key whose value is null is
  taken for a missing key by the test \<open>widgets is not None\<close>: it is kept and does not
  count as a change.
\<close>

theorem fix_remove_drops_non_null_widgets:
  assumes "is_document nb"
  shows "\<exists>changed nb'. fix_widgets_metadata True nb = Inr (changed, nb') \<and>
           list_all2 (\<lambda>x x'. \<not> is_None (widgets_of x) \<longrightarrow>
                              metadata_of x' \<noteq> None \<and> \<not> has_widgets_key x')
             (locations nb) (locations nb') \<and>
           (changed \<longleftrightarrow> (\<exists>x\<in>set (locations nb). \<not> is_None (widgets_of x)))"
proof -
  from document_result[OF assms, of True] obtain nb' where
    1: "fix_widgets_metadata True nb =
          Inr (\<exists>x\<in>set (locations nb). meta_changed True (metadata_of x), nb')"
    and 2: "map metadata_of (locations nb') =
            map (\<lambda>x. meta_after True (metadata_of x)) (locations nb)" by blast
  have "list_all2 (\<lambda>x x'. \<not> is_None (widgets_of x) \<longrightarrow>
                              metadata_of x' \<noteq> None \<and> \<not> has_widgets_key x')
             (locations nb) (locations nb')"
    by (rule map_eq_list_all2[OF 2]) (use meta_after_remove in blast)
  with 1 show ?thesis by (auto simp: meta_changed_iff)
qed

theorem fix_remove_drops_non_null_widgets_witness:
  "is_document nb_widgets \<and> \<not> is_None (widgets_of nb_widgets) \<and>
   fix_widgets_metadata True nb_widgets = Inr (True, nb_widgets_removed) \<and>
   metadata_of nb_widgets_removed \<noteq> None \<and> \<not> has_widgets_key nb_widgets_removed"
proof -
  have w: "\<not> is_None (widgets_of nb_widgets)"
    by (simp add: nb_widgets_def widgets_of_def metadata_of_def is_None_def)
  from fix_remove_drops_non_null_widgets[OF nb_widgets_document] obtain changed nb' where
    1: "fix_widgets_metadata True nb_widgets = Inr (changed, nb')"
    and 2: "list_all2 (\<lambda>x x'. \<not> is_None (widgets_of x) \<longrightarrow>
                              metadata_of x' \<noteq> None \<and> \<not> has_widgets_key x')
             (locations nb_widgets) (locations nb')"
    by blast
  from 1 have 3: "nb' = nb_widgets_removed" by (simp add: fix_remove_nb_widgets)
  from 2 w have "metadata_of nb' \<noteq> None \<and> \<not> has_widgets_key nb'"
    by (simp add: locations_def)
  with 3 w nb_widgets_document fix_remove_nb_widgets show ?thesis by simp
qed

text \<open>
  The statement of the specification fails on a widgets key whose value is null: the key is
  present before the call in removal mode, it is present after it, and the call returns
  false.
\<close>

theorem fix_remove_keeps_null_widgets:
  "fix_widgets_metadata True (JDict [(''metadata'', JDict [(''widgets'', JNull)])] :: unit json)
     = Inr (False, JDict [(''metadata'', JDict [(''widgets'', JNull)])]) \<and>
   has_widgets_key (JDict [(''metadata'', JDict [(''widgets'', JNull)])] :: unit json)"
  by (simp add: fix_widgets_metadata_def fix_metadata_of_def fix_widgets_block_def is_None_def
        has_widgets_key_def metadata_of_def)

section \<open>No exception on documents\<close>

text \<open>
  C2 (as amended). For either mode flag the call returns a flag and a tree on every
  document, whatever the values under its widgets keys are; in insert mode a place whose
  widgets value is not a mapping (or is missing) keeps its metadata mapping as it was.
  A top-level metadata value or a cell element that is not a mapping is not skipped: the
  lookup of \<open>get\<close> on it raises.
\<close>

theorem fix_returns_on_documents:
  assumes "is_document nb"
  shows "\<exists>changed nb'. fix_widgets_metadata remove_widgets nb = Inr (changed, nb') \<and>
           (\<not> remove_widgets \<longrightarrow>
              list_all2 (\<lambda>x x'. (\<forall>ws. widgets_of x \<noteq> Some (JDict ws)) \<longrightarrow>
                                 metadata_of x' = metadata_of x)
                (locations nb) (locations nb'))"
proof -
  from document_result[OF assms, of remove_widgets] obtain changed nb' where
    1: "fix_widgets_metadata remove_widgets nb = Inr (changed, nb')"
    and 2: "map metadata_of (locations nb') =
            map (\<lambda>x. meta_after remove_widgets (metadata_of x)) (locations nb)" by blast
  have 3: "metadata_of x' = metadata_of x"
    if "metadata_of x' = meta_after False (metadata_of x)"
      and "\<forall>ws. widgets_of x \<noteq> Some (JDict ws)" for x x' :: "'a json"
  proof (cases "metadata_of x")
    case None
    with that(1) show ?thesis by (simp add: meta_after_def)
  next
    case (Some meta)
    with that(2) have "\<forall>ws. map_of meta ''widgets'' = Some (JDict ws) \<longrightarrow> ''state'' \<in> fst ` set ws"
      by (simp add: widgets_of_def)
    from block_insert_keep[OF this] that(1) Some show ?thesis by (simp add: meta_after_def)
  qed
  have "list_all2 (\<lambda>x x'. (\<forall>ws. widgets_of x \<noteq> Some (JDict ws)) \<longrightarrow>
                                 metadata_of x' = metadata_of x)
                (locations nb) (locations nb')" if "\<not> remove_widgets"
    by (rule map_eq_list_all2[OF 2]) (use that 3 in simp)
  with 1 show ?thesis by blast
qed

theorem fix_returns_on_documents_witness:
  "is_document nb_widgets \<and>
   fix_widgets_metadata False nb_widgets = Inr (True, nb_widgets_fixed) \<and>
   widgets_of (locations nb_widgets ! 2) = Some (JInt 3) \<and>
   metadata_of (locations nb_widgets_fixed ! 2) = metadata_of (locations nb_widgets ! 2)"
proof -
  from fix_returns_on_documents[OF nb_widgets_document, of False] obtain changed nb' where
    1: "fix_widgets_metadata False nb_widgets = Inr (changed, nb')"
    and 2: "list_all2 (\<lambda>x x'. (\<forall>ws. widgets_of x \<noteq> Some (JDict ws)) \<longrightarrow>
                                 metadata_of x' = metadata_of x)
                (locations nb_widgets) (locations nb')"
    by blast
  from 1 have 3: "nb' = nb_widgets_fixed" by (simp add: fix_insert_nb_widgets)
  have 4: "widgets_of (locations nb_widgets ! 2) = Some (JInt 3)"
    by (simp add: nb_widgets_def locations_def cells_of_def widgets_of_def metadata_of_def)
  have 5: "length (locations nb_widgets) = 4"
    by (simp add: nb_widgets_def locations_def cells_of_def)
  from 2 5 have "(\<forall>ws. widgets_of (locations nb_widgets ! 2) \<noteq> Some (JDict ws)) \<longrightarrow>
      metadata_of (locations nb' ! 2) = metadata_of (locations nb_widgets ! 2)"
    by (simp add: list_all2_conv_all_nth)
  with 3 4 have "metadata_of (locations nb_widgets_fixed ! 2) = metadata_of (locations nb_widgets ! 2)"
    by simp
  with 4 nb_widgets_document fix_insert_nb_widgets show ?thesis by simp
qed

text \<open>
  The statement of the specification fails on a top-level metadata value that is a string and on
  a cell that is a number: both calls raise AttributeError.
\<close>

theorem fix_raises_on_malformed:
  "fix_widgets_metadata False (JDict [(''metadata'', JStr ''x'')] :: unit json) = Inl AttributeError \<and>
   fix_widgets_metadata False (JDict [(''cells'', JList [JInt 5])] :: unit json) = Inl AttributeError"
  by (simp add: fix_widgets_metadata_def fix_metadata_of_def for_cells_def)

section \<open>Insert mode at the document level\<close>

text \<open>
  C3. In insert mode, on a document whose metadata.widgets entry is a mapping: when the
  mapping has no \<open>state\<close> key the call returns true and the entry afterwards is the
  same mapping with \<open>state\<close> mapped to the empty mapping appended, so every other
  entry is kept as it was; when the mapping has a \<open>state\<close> key and no cell has a widgets
  mapping without \<open>state\<close>, the call returns false and the whole tree, this entry
  included, is unchanged.
\<close>

theorem fix_insert_document_widgets:
  assumes "is_document nb" and "widgets_of nb = Some (JDict ws)"
  shows "(''state'' \<notin> fst ` set ws \<longrightarrow>
            (\<exists>nb'. fix_widgets_metadata False nb = Inr (True, nb') \<and>
                   widgets_of nb' = Some (JDict (ws @ [(''state'', JDict [])])))) \<and>
         (''state'' \<in> fst ` set ws \<and>
            (\<forall>cell\<in>set (cells_of nb). \<forall>cws. widgets_of cell = Some (JDict cws) \<longrightarrow>
                ''state'' \<in> fst ` set cws) \<longrightarrow>
            fix_widgets_metadata False nb = Inr (False, nb))"
proof (intro conjI impI)
  from assms(2) obtain meta where m: "metadata_of nb = Some meta"
    "map_of meta ''widgets'' = Some (JDict ws)"
    by (cases "metadata_of nb") (auto simp: widgets_of_def)
  from document_result[OF assms(1), of False] obtain nb' where
    1: "fix_widgets_metadata False nb =
          Inr (\<exists>x\<in>set (locations nb). meta_changed False (metadata_of x), nb')"
    and 2: "map metadata_of (locations nb') =
            map (\<lambda>x. meta_after False (metadata_of x)) (locations nb)"
    and 3: "(\<forall>x\<in>set (locations nb). stable_meta False (metadata_of x)) \<longrightarrow> nb' = nb" by blast
  {
    assume a: "''state'' \<notin> fst ` set ws"
    have "meta_changed False (metadata_of nb)"
      using m block_insert_add[OF m(2) a] by (simp add: meta_changed_def)
    then have c: "\<exists>x\<in>set (locations nb). meta_changed False (metadata_of x)"
      by (auto simp: locations_def)
    from 2 have "metadata_of nb' = meta_after False (metadata_of nb)" by (simp add: locations_def)
    then have "widgets_of nb' = Some (JDict (ws @ [(''state'', JDict [])]))"
      using m block_insert_add[OF m(2) a] by (simp add: meta_after_def widgets_of_def update_conv')
    with 1 c show "\<exists>nb'. fix_widgets_metadata False nb = Inr (True, nb') \<and>
                   widgets_of nb' = Some (JDict (ws @ [(''state'', JDict [])]))" by auto
  }
  {
    assume a: "''state'' \<in> fst ` set ws \<and>
            (\<forall>cell\<in>set (cells_of nb). \<forall>cws. widgets_of cell = Some (JDict cws) \<longrightarrow>
                ''state'' \<in> fst ` set cws)"
    have s: "stable_meta False (metadata_of x)" if "x \<in> set (locations nb)" for x
    proof -
      have "\<forall>cws. widgets_of x = Some (JDict cws) \<longrightarrow> ''state'' \<in> fst ` set cws"
        using that a assms(2) by (auto simp: locations_def)
      then show ?thesis
        by (cases "metadata_of x") (auto simp: stable_meta_def widgets_of_def intro: block_insert_keep)
    qed
    then have "\<not> (\<exists>x\<in>set (locations nb). meta_changed False (metadata_of x))"
      using stable_not_changed by blast
    with 1 3 s show "fix_widgets_metadata False nb = Inr (False, nb)" by auto
  }
qed

theorem fix_insert_document_widgets_witness:
  "is_document nb_widgets \<and> widgets_of nb_widgets = Some (JDict [(''a'', JInt 1)]) \<and>
   (\<exists>nb'. fix_widgets_metadata False nb_widgets = Inr (True, nb') \<and>
          widgets_of nb' = Some (JDict [(''a'', JInt 1), (''state'', JDict [])])) \<and>
   is_document nb_widgets_fixed \<and>
   widgets_of nb_widgets_fixed = Some (JDict [(''a'', JInt 1), (''state'', JDict [])]) \<and>
   fix_widgets_metadata False nb_widgets_fixed = Inr (False, nb_widgets_fixed)"
proof -
  have 1: "widgets_of nb_widgets = Some (JDict [(''a'', JInt 1)])"
    by (simp add: nb_widgets_def widgets_of_def metadata_of_def)
  have 2: "widgets_of nb_widgets_fixed = Some (JDict [(''a'', JInt 1), (''state'', JDict [])])"
    by (simp add: nb_widgets_fixed_def widgets_of_def metadata_of_def)
  have 3: "\<forall>cell\<in>set (cells_of nb_widgets_fixed). \<forall>cws.
             widgets_of cell = Some (JDict cws) \<longrightarrow> ''state'' \<in> fst ` set cws"
    by (auto simp: nb_widgets_fixed_def cells_of_def widgets_of_def metadata_of_def)
  from fix_insert_document_widgets[OF nb_widgets_document 1]
  have 4: "\<exists>nb'. fix_widgets_metadata False nb_widgets = Inr (True, nb') \<and>
          widgets_of nb' = Some (JDict [(''a'', JInt 1), (''state'', JDict [])])" by simp
  from fix_insert_document_widgets[OF nb_widgets_fixed_document 2] 3
  have 5: "fix_widgets_metadata False nb_widgets_fixed = Inr (False, nb_widgets_fixed)" by simp
  from 1 2 4 5 nb_widgets_document nb_widgets_fixed_document show ?thesis by blast
qed

section \<open>Idempotence\<close>

text \<open>
  C4. For either mode flag, on every document, the call returns and a second call with
  the same flag on the resulting tree returns false and leaves that tree unchanged.
\<close>

theorem fix_idempotent:
  assumes "is_document nb"
  shows "\<exists>changed nb'. fix_widgets_metadata remove_widgets nb = Inr (changed, nb') \<and>
           fix_widgets_metadata remove_widgets nb' = Inr (False, nb')"
proof -
  from document_result[OF assms, of remove_widgets] obtain c nb' where
    1: "fix_widgets_metadata remove_widgets nb = Inr (c, nb')"
    and 2: "map metadata_of (locations nb') =
            map (\<lambda>x. meta_after remove_widgets (metadata_of x)) (locations nb)"
    and 3: "is_document nb'" by blast
  have "\<forall>m\<in>set (map metadata_of (locations nb')). stable_meta remove_widgets m"
    unfolding 2 by (auto simp: stable_after)
  then have s: "\<forall>x\<in>set (locations nb'). stable_meta remove_widgets (metadata_of x)" by simp
  then have "\<not> (\<exists>x\<in>set (locations nb'). meta_changed remove_widgets (metadata_of x))"
    by (auto simp: stable_meta_def meta_changed_def split: option.splits)
  with document_result[OF 3, of remove_widgets] s
  have "fix_widgets_metadata remove_widgets nb' = Inr (False, nb')" by auto
  with 1 show ?thesis by blast
qed

theorem fix_idempotent_witness:
  "is_document nb_widgets \<and>
   fix_widgets_metadata False nb_widgets = Inr (True, nb_widgets_fixed) \<and>
   fix_widgets_metadata False nb_widgets_fixed = Inr (False, nb_widgets_fixed)"
proof -
  from fix_idempotent[OF nb_widgets_document, of False] obtain changed nb' where
    "fix_widgets_metadata False nb_widgets = Inr (changed, nb')"
    "fix_widgets_metadata False nb' = Inr (False, nb')" by blast
  then show ?thesis using nb_widgets_document by (simp add: fix_insert_nb_widgets)
qed

section \<open>Documents without widgets\<close>

text \<open>
  C7. For either mode flag, on every document in which neither the document-level
  metadata mapping nor the metadata mapping of any cell has a \<open>widgets\<close> key, the call
  returns false and the tree after the call is the tree before it.
\<close>

theorem fix_without_widgets_is_identity:
  assumes "is_document nb" and "\<forall>x\<in>set (locations nb). \<not> has_widgets_key x"
  shows "fix_widgets_metadata remove_widgets nb = Inr (False, nb)"
proof -
  have s: "\<forall>x\<in>set (locations nb). stable_meta remove_widgets (metadata_of x)"
    using assms(2) stable_no_key by blast
  then have "\<not> (\<exists>x\<in>set (locations nb). meta_changed remove_widgets (metadata_of x))"
    by (auto simp: stable_meta_def meta_changed_def split: option.splits)
  with document_result[OF assms(1), of remove_widgets] s show ?thesis by auto
qed

theorem fix_without_widgets_is_identity_witness:
  "is_document nb_plain \<and> list_all (\<lambda>x. \<not> has_widgets_key x) (locations nb_plain) \<and>
   fix_widgets_metadata True nb_plain = Inr (False, nb_plain)"
proof -
  have w: "list_all (\<lambda>x. \<not> has_widgets_key x) (locations nb_plain)"
    by (simp add: nb_plain_def locations_def cells_of_def has_widgets_key_def metadata_of_def)
  then have "\<forall>x\<in>set (locations nb_plain). \<not> has_widgets_key x"
    by (simp add: list_all_iff)
  from fix_without_widgets_is_identity[OF nb_plain_document this, of True] w nb_plain_document
  show ?thesis by blast
qed

section \<open>Missing metadata stays missing\<close>

text \<open>
  C10. For either mode flag, on every document, the call returns; a place (the document
  or a cell) without a \<open>metadata\<close> key before the call has none after it; and when the
  call returns true, some place has a \<open>metadata\<close> key whose mapping holds a widgets
  entry that is not null, so a missing metadata mapping is never the reason for a true
  result.
\<close>

theorem fix_never_creates_metadata:
  assumes "is_document nb"
  shows "\<exists>changed nb'. fix_widgets_metadata remove_widgets nb = Inr (changed, nb') \<and>
           list_all2 (\<lambda>x x'. \<not> has_metadata_key x \<longrightarrow> \<not> has_metadata_key x')
             (locations nb) (locations nb') \<and>
           (changed \<longrightarrow> (\<exists>x\<in>set (locations nb). has_metadata_key x \<and> \<not> is_None (widgets_of x)))"
proof -
  from document_result[OF assms, of remove_widgets] obtain nb' where
    1: "fix_widgets_metadata remove_widgets nb =
          Inr (\<exists>x\<in>set (locations nb). meta_changed remove_widgets (metadata_of x), nb')"
    and 2: "map has_metadata_key (locations nb') = map has_metadata_key (locations nb)" by blast
  have 3: "list_all2 (\<lambda>x x'. \<not> has_metadata_key x \<longrightarrow> \<not> has_metadata_key x')
             (locations nb) (locations nb')"
    by (rule map_eq_list_all2[OF 2]) simp
  have 4: "has_metadata_key x \<and> \<not> is_None (widgets_of x)"
    if "meta_changed remove_widgets (metadata_of x)" for x :: "'a json"
  proof -
    from that obtain meta where m: "metadata_of x = Some meta"
      "fst (fix_widgets_block remove_widgets meta)"
      by (cases "metadata_of x") (auto simp: meta_changed_def)
    from m(1) obtain kvs where "x = JDict kvs" "map_of kvs ''metadata'' = Some (JDict meta)"
      by (auto simp: metadata_of_def split: json.splits option.splits)
    then have "has_metadata_key x"
      using map_of_eq_None_iff[of kvs "''metadata''"] by (auto simp: has_metadata_key_def)
    then show ?thesis using block_changed[OF m(2)] m(1) by (simp add: widgets_of_def)
  qed
  from 1 3 4 show ?thesis by blast
qed

theorem fix_never_creates_metadata_witness:
  "is_document nb_widgets \<and>
   fix_widgets_metadata False nb_widgets = Inr (True, nb_widgets_fixed) \<and>
   \<not> has_metadata_key (locations nb_widgets ! 3) \<and>
   \<not> has_metadata_key (locations nb_widgets_fixed ! 3) \<and>
   (\<exists>x\<in>set (locations nb_widgets). has_metadata_key x \<and> \<not> is_None (widgets_of x))"
proof -
  from fix_never_creates_metadata[OF nb_widgets_document, of False] obtain changed nb' where
    1: "fix_widgets_metadata False nb_widgets = Inr (changed, nb')"
    and 2: "list_all2 (\<lambda>x x'. \<not> has_metadata_key x \<longrightarrow> \<not> has_metadata_key x')
             (locations nb_widgets) (locations nb')"
    and 3: "changed \<longrightarrow>
             (\<exists>x\<in>set (locations nb_widgets). has_metadata_key x \<and> \<not> is_None (widgets_of x))"
    by blast
  from 1 have 4: "changed" "nb' = nb_widgets_fixed" by (simp_all add: fix_insert_nb_widgets)
  have 5: "\<not> has_metadata_key (locations nb_widgets ! 3)"
    by (simp add: nb_widgets_def locations_def cells_of_def has_metadata_key_def)
  have 6: "length (locations nb_widgets) = 4"
    by (simp add: nb_widgets_def locations_def cells_of_def)
  from 2 6 5 have "\<not> has_metadata_key (locations nb' ! 3)"
    by (auto simp: list_all2_conv_all_nth)
  with 1 3 4 5 nb_widgets_document show ?thesis by simp
qed

section \<open>Insert mode keeps every entry\<close>

lemma kept_refl: "kept v v"
  by (cases v) (simp_all add: kept_def)

lemma grows_refl: "grows t t"
  by (simp add: grows_def kept_refl)

lemma added_state_iff:
  "added_state t p v' \<longleftrightarrow>
     v' = JDict [] \<and>
     (\<exists>q ws. p = q @ [Key ''widgets'', Key ''state''] \<and>
             lookup t (q @ [Key ''widgets'']) = Some (JDict ws) \<and> ''state'' \<notin> fst ` set ws)"
proof
  assume a: "added_state t p v'"
  let ?q = "take (length p - 2) p"
  from a have d: "drop (length p - 2) p = [Key ''widgets'', Key ''state'']"
    by (simp add: added_state_def)
  have p: "p = ?q @ [Key ''widgets'', Key ''state'']"
    using append_take_drop_id[of "length p - 2" p] d by simp
  then have b: "butlast p = ?q @ [Key ''widgets'']"
    by (metis butlast.simps(2) butlast_append list.distinct(1))
  from a b obtain ws where "lookup t (?q @ [Key ''widgets'']) = Some (JDict ws)"
    "''state'' \<notin> fst ` set ws"
    by (auto simp: added_state_def split: option.splits json.splits)
  moreover from a have "v' = JDict []" by (simp add: added_state_def)
  ultimately show "v' = JDict [] \<and>
     (\<exists>q ws. p = q @ [Key ''widgets'', Key ''state''] \<and>
             lookup t (q @ [Key ''widgets'']) = Some (JDict ws) \<and> ''state'' \<notin> fst ` set ws)"
    using p by blast
next
  assume "v' = JDict [] \<and>
     (\<exists>q ws. p = q @ [Key ''widgets'', Key ''state''] \<and>
             lookup t (q @ [Key ''widgets'']) = Some (JDict ws) \<and> ''state'' \<notin> fst ` set ws)"
  then obtain q ws where v: "v' = JDict []" and p: "p = q @ [Key ''widgets'', Key ''state'']"
    and l: "lookup t (q @ [Key ''widgets'']) = Some (JDict ws)" and s: "''state'' \<notin> fst ` set ws"
    by blast
  have b: "butlast p = q @ [Key ''widgets'']" using p by (simp add: butlast_append)
  show "added_state t p v'"
    unfolding added_state_def b using v p l s by simp
qed

lemma growsD1: "grows t t' \<Longrightarrow> lookup t p = Some v \<Longrightarrow> \<exists>v'. lookup t' p = Some v' \<and> kept v v'"
  unfolding grows_def by blast

lemma growsD2: "grows t t' \<Longrightarrow> lookup t' p = Some v' \<Longrightarrow> lookup t p = None \<Longrightarrow> added_state t p v'"
  unfolding grows_def by blast

lemma grows_dict:
  assumes "\<And>k. case map_of d k of None \<Rightarrow> map_of d' k = None
                | Some v \<Rightarrow> (\<exists>v'. map_of d' k = Some v' \<and> grows v v')"
  shows "grows (JDict d) (JDict d')"
  unfolding grows_def
proof (intro conjI allI impI)
  fix p v assume l: "lookup (JDict d) p = Some v"
  show "\<exists>v'. lookup (JDict d') p = Some v' \<and> kept v v'"
  proof (cases p)
    case Nil
    with l show ?thesis by (auto simp: kept_def)
  next
    case (Cons s p')
    show ?thesis
    proof (cases s)
      case (Key k)
      with l Cons obtain u where u: "map_of d k = Some u" "lookup u p' = Some v"
        by (auto split: option.splits)
      with assms[of k] obtain u' where u': "map_of d' k = Some u'" "grows u u'" by auto
      from growsD1[OF u'(2) u(2)] obtain v' where "lookup u' p' = Some v'" "kept v v'" by blast
      then show ?thesis using Cons Key u'(1) by simp
    next
      case (Idx i)
      with l Cons show ?thesis by simp
    qed
  qed
next
  fix p v' assume l': "lookup (JDict d') p = Some v'" and l: "lookup (JDict d) p = None"
  show "added_state (JDict d) p v'"
  proof (cases p)
    case Nil
    with l show ?thesis by simp
  next
    case (Cons s p')
    show ?thesis
    proof (cases s)
      case (Key k)
      with l' Cons obtain u' where u': "map_of d' k = Some u'" "lookup u' p' = Some v'"
        by (auto split: option.splits)
      with assms[of k] obtain u where u: "map_of d k = Some u" "grows u u'"
        by (cases "map_of d k") auto
      with l Cons Key have "lookup u p' = None" by simp
      with u(2) u'(2) have "added_state u p' v'" by (blast intro: growsD2)
      then obtain q ws where q: "v' = JDict []" "p' = q @ [Key ''widgets'', Key ''state'']"
        "lookup u (q @ [Key ''widgets'']) = Some (JDict ws)" "''state'' \<notin> fst ` set ws"
        by (auto simp: added_state_iff)
      have "p = (Key k # q) @ [Key ''widgets'', Key ''state'']" using Cons Key q(2) by simp
      moreover have "lookup (JDict d) ((Key k # q) @ [Key ''widgets'']) = Some (JDict ws)"
        using u(1) q(3) by simp
      ultimately show ?thesis using q(1,4) unfolding added_state_iff by blast
    next
      case (Idx i)
      with l' Cons show ?thesis by simp
    qed
  qed
qed

lemma grows_list:
  assumes "length ys = length xs" and "\<And>i. i < length xs \<Longrightarrow> grows (xs ! i) (ys ! i)"
  shows "grows (JList xs) (JList ys)"
  unfolding grows_def
proof (intro conjI allI impI)
  fix p v assume l: "lookup (JList xs) p = Some v"
  show "\<exists>v'. lookup (JList ys) p = Some v' \<and> kept v v'"
  proof (cases p)
    case Nil
    with l assms(1) show ?thesis by (auto simp: kept_def)
  next
    case (Cons s p')
    show ?thesis
    proof (cases s)
      case (Key k)
      with l Cons show ?thesis by simp
    next
      case (Idx i)
      with l Cons have i: "i < length xs" "lookup (xs ! i) p' = Some v"
        by (auto split: if_splits)
      from growsD1[OF assms(2)[OF i(1)] i(2)] obtain v' where "lookup (ys ! i) p' = Some v'" "kept v v'"
        by blast
      then show ?thesis using Cons Idx i(1) assms(1) by simp
    qed
  qed
next
  fix p v' assume l': "lookup (JList ys) p = Some v'" and l: "lookup (JList xs) p = None"
  show "added_state (JList xs) p v'"
  proof (cases p)
    case Nil
    with l show ?thesis by simp
  next
    case (Cons s p')
    show ?thesis
    proof (cases s)
      case (Key k)
      with l' Cons show ?thesis by simp
    next
      case (Idx i)
      with l' Cons assms(1) have i: "i < length xs" "lookup (ys ! i) p' = Some v'"
        by (auto split: if_splits)
      with l Cons Idx have "lookup (xs ! i) p' = None" by simp
      with assms(2)[OF i(1)] i(2) have "added_state (xs ! i) p' v'" by (blast intro: growsD2)
      then obtain q ws where q: "v' = JDict []" "p' = q @ [Key ''widgets'', Key ''state'']"
        "lookup (xs ! i) (q @ [Key ''widgets'']) = Some (JDict ws)" "''state'' \<notin> fst ` set ws"
        by (auto simp: added_state_iff)
      have "p = (Idx i # q) @ [Key ''widgets'', Key ''state'']" using Cons Idx q(2) by simp
      moreover have "lookup (JList xs) ((Idx i # q) @ [Key ''widgets'']) = Some (JDict ws)"
        using i(1) q(3) by simp
      ultimately show ?thesis using q(1,4) unfolding added_state_iff by blast
    qed
  qed
qed

lemma entries_grow_refl: "entries_grow d d"
  by (auto simp: entries_grow_def grows_refl split: option.splits)

lemma grows_entries: "entries_grow d d' \<Longrightarrow> grows (JDict d) (JDict d')"
  by (rule grows_dict) (simp add: entries_grow_def)

lemma entries_grow_update:
  assumes "entries_grow d d1" and "map_of d k = Some v" and "grows v v'"
    and "map_of d1 k = Some v"
  shows "entries_grow d (AList.update k v' d1)"
  unfolding entries_grow_def
proof
  fix j
  show "case map_of d j of None \<Rightarrow> map_of (AList.update k v' d1) j = None
        | Some u \<Rightarrow> (\<exists>u'. map_of (AList.update k v' d1) j = Some u' \<and> grows u u')"
  proof (cases "j = k")
    case True
    with assms(2,3) show ?thesis by (simp add: update_conv')
  next
    case False
    have eq: "map_of (AList.update k v' d1) j = map_of d1 j"
      using False by (simp add: update_conv')
    from assms(1) show ?thesis unfolding entries_grow_def eq by blast
  qed
qed

lemma lookup_empty_dict: "lookup (JDict []) p = Some v \<Longrightarrow> p = [] \<and> v = JDict []"
proof (cases p)
  case Nil
  assume "lookup (JDict []) p = Some v"
  with Nil show ?thesis by simp
next
  case (Cons a p')
  assume "lookup (JDict []) p = Some v"
  with Cons show ?thesis by (cases a) simp_all
qed

lemma grows_widgets:
  assumes m: "map_of meta ''widgets'' = Some (JDict ws)" and s: "''state'' \<notin> fst ` set ws"
  shows "grows (JDict meta)
           (JDict (AList.update ''widgets'' (JDict (ws @ [(''state'', JDict [])])) meta))"
    (is "grows _ (JDict ?meta')")
proof -
  let ?ws' = "ws @ [(''state'', JDict [])]"
  have sn: "map_of ws ''state'' = None" using s by (simp add: map_of_eq_None_iff)
  have w': "map_of ?ws' k = (if k = ''state'' then Some (JDict []) else map_of ws k)" for k
    using sn by (auto simp: map_add_def split: option.splits)
  have m': "map_of ?meta' k = (if k = ''widgets'' then Some (JDict ?ws') else map_of meta k)" for k
    by (simp add: update_conv')
  have inner1: "\<exists>v'. lookup (JDict ?ws') p = Some v' \<and> kept v v'"
    if "lookup (JDict ws) p = Some v" for p v
  proof (cases p)
    case Nil
    with that show ?thesis by (auto simp: kept_def)
  next
    case (Cons a p')
    show ?thesis
    proof (cases a)
      case (Key k)
      with that Cons sn have "k \<noteq> ''state''" by (auto split: option.splits)
      with that Cons Key show ?thesis by (simp add: w' kept_refl del: map_of_append)
    next
      case (Idx i)
      with that Cons show ?thesis by simp
    qed
  qed
  have inner2: "p = [Key ''state''] \<and> v' = JDict []"
    if "lookup (JDict ?ws') p = Some v'" "lookup (JDict ws) p = None" for p v'
  proof (cases p)
    case Nil
    with that show ?thesis by simp
  next
    case (Cons a p')
    show ?thesis
    proof (cases a)
      case (Key k)
      show ?thesis
      proof (cases "k = ''state''")
        case True
        with that(1) Cons Key have "lookup (JDict []) p' = Some v'" by (simp add: w' del: map_of_append)
        then have "p' = [] \<and> v' = JDict []" by (rule lookup_empty_dict)
        with Cons Key True show ?thesis by simp
      next
        case False
        with that Cons Key show ?thesis by (simp add: w' del: map_of_append)
      qed
    next
      case (Idx i)
      with that Cons show ?thesis by simp
    qed
  qed
  show ?thesis
    unfolding grows_def
  proof (intro conjI allI impI)
    fix p v assume l: "lookup (JDict meta) p = Some v"
    show "\<exists>v'. lookup (JDict ?meta') p = Some v' \<and> kept v v'"
    proof (cases p)
      case Nil
      with l show ?thesis by (auto simp: kept_def)
    next
      case (Cons a p')
      show ?thesis
      proof (cases a)
        case (Key k)
        show ?thesis
        proof (cases "k = ''widgets''")
          case True
          with l Cons Key m have "lookup (JDict ws) p' = Some v" by simp
          from inner1[OF this] show ?thesis using Cons Key True by (simp add: m')
        next
          case False
          with l Cons Key show ?thesis by (simp add: m' kept_refl)
        qed
      next
        case (Idx i)
        with l Cons show ?thesis by simp
      qed
    qed
  next
    fix p v' assume l': "lookup (JDict ?meta') p = Some v'" and l: "lookup (JDict meta) p = None"
    show "added_state (JDict meta) p v'"
    proof (cases p)
      case Nil
      with l show ?thesis by simp
    next
      case (Cons a p')
      show ?thesis
      proof (cases a)
        case (Key k)
        show ?thesis
        proof (cases "k = ''widgets''")
          case True
          with l l' Cons Key m have "lookup (JDict ?ws') p' = Some v'" "lookup (JDict ws) p' = None"
            by (simp_all add: m')
          from inner2[OF this] have "p = [] @ [Key ''widgets'', Key ''state'']" "v' = JDict []"
            using Cons Key True by simp_all
          moreover have "lookup (JDict meta) ([] @ [Key ''widgets'']) = Some (JDict ws)"
            using m by simp
          ultimately show ?thesis using s unfolding added_state_iff by blast
        next
          case False
          with l l' Cons Key show ?thesis by (simp add: m')
        qed
      next
        case (Idx i)
        with l' Cons show ?thesis by simp
      qed
    qed
  qed
qed

lemma block_grows:
  assumes "fix_widgets_block False meta = (c, meta')"
  shows "grows (JDict meta) (JDict meta')"
proof (cases "\<exists>ws. map_of meta ''widgets'' = Some (JDict ws) \<and> ''state'' \<notin> fst ` set ws")
  case True
  then obtain ws where ws: "map_of meta ''widgets'' = Some (JDict ws)" "''state'' \<notin> fst ` set ws"
    by blast
  from block_insert_add[OF ws] assms grows_widgets[OF ws] show ?thesis by simp
next
  case False
  then have "fix_widgets_block False meta = (False, meta)" by (intro block_insert_keep) blast
  with assms show ?thesis by (simp add: grows_refl)
qed

lemma cell_grows:
  assumes "fix_metadata_of False x = Inr (c, x')"
  shows "\<exists>kvs kvs'. x = JDict kvs \<and> x' = JDict kvs' \<and> entries_grow kvs kvs' \<and>
           (\<forall>k. k \<noteq> ''metadata'' \<longrightarrow> map_of kvs' k = map_of kvs k)"
proof -
  from assms obtain kvs where x: "x = JDict kvs"
    by (cases x) (simp_all add: fix_metadata_of_def)
  show ?thesis
  proof (cases "map_of kvs ''metadata''")
    case None
    with assms x have "x' = x" by (simp add: fix_metadata_of_def)
    with x show ?thesis by (simp add: entries_grow_refl)
  next
    case (Some mv)
    with assms x obtain meta where mv: "mv = JDict meta"
      by (cases mv) (simp_all add: fix_metadata_of_def)
    obtain b meta' where b: "fix_widgets_block False meta = (b, meta')"
      by (cases "fix_widgets_block False meta")
    with assms x Some mv have x': "x' = JDict (AList.update ''metadata'' (JDict meta') kvs)"
      by (simp add: fix_metadata_of_def)
    have "entries_grow kvs (AList.update ''metadata'' (JDict meta') kvs)"
      using entries_grow_update[OF entries_grow_refl _ block_grows[OF b]] Some mv by simp
    then show ?thesis using x x' by (simp add: update_conv')
  qed
qed

lemma cell_grows': "fix_metadata_of False x = Inr (c, x') \<Longrightarrow> grows x x'"
  using cell_grows grows_entries by blast

lemma cells_grow:
  "fix_cells False cs = Inr (c, cs') \<Longrightarrow>
     length cs' = length cs \<and> (\<forall>i<length cs. grows (cs ! i) (cs' ! i))"
proof (induction cs arbitrary: c cs')
  case Nil
  then show ?case by simp
next
  case (Cons a cs)
  from Cons.prems obtain c1 a' c2 cs2 where
    a: "fix_metadata_of False a = Inr (c1, a')" and r: "fix_cells False cs = Inr (c2, cs2)"
    and e: "cs' = a' # cs2"
    by (auto split: sum.splits prod.splits)
  from Cons.IH[OF r] have ih: "length cs2 = length cs" "\<forall>i<length cs. grows (cs ! i) (cs2 ! i)"
    by simp_all
  have "grows ((a # cs) ! i) (cs' ! i)" if "i < length (a # cs)" for i
    using that e ih(2) cell_grows'[OF a] by (cases i) simp_all
  then show ?case using e ih(1) by simp
qed

lemma for_cells_grows:
  assumes "for_cells False cells = Inr (c, cells')"
  shows "grows cells cells'"
proof (cases cells)
  case (JList cs)
  with assms obtain c1 cs' where f: "fix_cells False cs = Inr (c1, cs')" and e: "cells' = JList cs'"
    by (auto simp: for_cells_def split: sum.splits prod.splits)
  from cells_grow[OF f] show ?thesis unfolding JList e by (intro grows_list) simp_all
next
  case (JDict d)
  with assms have "cells' = cells" by (auto simp: for_cells_def split: list.splits)
  then show ?thesis by (simp add: grows_refl)
next
  case (JStr s)
  with assms have "cells' = cells" by (auto simp: for_cells_def split: list.splits)
  then show ?thesis by (simp add: grows_refl)
qed (use assms in \<open>simp_all add: for_cells_def\<close>)

lemma document_grows:
  assumes "fix_widgets_metadata False nb = Inr (c, nb')"
  shows "grows nb nb'"
proof -
  from assms obtain c0 nb1 where h: "fix_metadata_of False nb = Inr (c0, nb1)"
    by (auto simp: fix_widgets_metadata_def split: sum.splits prod.splits)
  from cell_grows[OF h] obtain kvs kvs1 where k: "nb = JDict kvs" "nb1 = JDict kvs1"
    "entries_grow kvs kvs1" "\<forall>k. k \<noteq> ''metadata'' \<longrightarrow> map_of kvs1 k = map_of kvs k" by blast
  show ?thesis
  proof (cases "map_of kvs1 ''cells''")
    case None
    with assms h k have "nb' = nb1" by (simp add: fix_widgets_metadata_def)
    with k show ?thesis by (simp add: grows_entries)
  next
    case (Some cells)
    with assms h k obtain c1 cells' where f: "for_cells False cells = Inr (c1, cells')"
      and e: "nb' = JDict (AList.update ''cells'' cells' kvs1)"
      by (auto simp: fix_widgets_metadata_def split: sum.splits prod.splits)
    have "map_of kvs ''cells'' = Some cells" using Some k(4) by simp
    from entries_grow_update[OF k(3) this for_cells_grows[OF f] Some]
    show ?thesis using k(1) e by (simp add: grows_entries)
  qed
qed

text \<open>
  C9. In insert mode, on every document, the call returns, and between the tree before
  and the tree after: every entry present before (a key of a mapping or an index of a
  list, at any depth) is present after, a scalar value being the same and a list or a
  mapping staying a list of the same length or a mapping; and every entry present only
  after is a \<open>state\<close> key mapped to the empty mapping inside a \<open>widgets\<close> mapping that
  had no \<open>state\<close> key before. So nothing is deleted or overwritten, and the only
  mutations are these insertions.
\<close>

theorem fix_insert_only_adds_state:
  assumes "is_document nb"
  shows "\<exists>changed nb'. fix_widgets_metadata False nb = Inr (changed, nb') \<and>
           (\<forall>p v. lookup nb p = Some v \<longrightarrow> (\<exists>v'. lookup nb' p = Some v' \<and> kept v v')) \<and>
           (\<forall>p v'. lookup nb' p = Some v' \<longrightarrow> lookup nb p = None \<longrightarrow> added_state nb p v')"
proof -
  from document_result[OF assms, of False] obtain changed nb' where
    f: "fix_widgets_metadata False nb = Inr (changed, nb')" by blast
  from document_grows[OF f] f show ?thesis unfolding grows_def by blast
qed

theorem fix_insert_only_adds_state_witness:
  "is_document nb_widgets \<and>
   fix_widgets_metadata False nb_widgets = Inr (True, nb_widgets_fixed) \<and>
   lookup nb_widgets [Key ''metadata'', Key ''widgets'', Key ''a''] = Some (JInt 1) \<and>
   lookup nb_widgets_fixed [Key ''metadata'', Key ''widgets'', Key ''a''] = Some (JInt 1) \<and>
   lookup nb_widgets [Key ''metadata'', Key ''widgets'', Key ''state''] = None \<and>
   lookup nb_widgets_fixed [Key ''metadata'', Key ''widgets'', Key ''state''] = Some (JDict []) \<and>
   added_state nb_widgets [Key ''metadata'', Key ''widgets'', Key ''state''] (JDict [])"
proof -
  from fix_insert_only_adds_state[OF nb_widgets_document] obtain changed nb' where
    1: "fix_widgets_metadata False nb_widgets = Inr (changed, nb')"
    and 2: "\<forall>p v. lookup nb_widgets p = Some v \<longrightarrow> (\<exists>v'. lookup nb' p = Some v' \<and> kept v v')"
    and 3: "\<forall>p v'. lookup nb' p = Some v' \<longrightarrow> lookup nb_widgets p = None \<longrightarrow>
                  added_state nb_widgets p v'"
    by blast
  from 1 have 4: "nb' = nb_widgets_fixed" by (simp add: fix_insert_nb_widgets)
  have 5: "lookup nb_widgets [Key ''metadata'', Key ''widgets'', Key ''a''] = Some (JInt 1)"
    by (simp add: nb_widgets_def)
  have 6: "lookup nb_widgets [Key ''metadata'', Key ''widgets'', Key ''state''] = None"
    by (simp add: nb_widgets_def)
  have 7: "lookup nb_widgets_fixed [Key ''metadata'', Key ''widgets'', Key ''state''] = Some (JDict [])"
    by (simp add: nb_widgets_fixed_def)
  from 2 5 obtain v' where
    "lookup nb' [Key ''metadata'', Key ''widgets'', Key ''a''] = Some v'" "kept (JInt 1) v'"
    by blast
  then have 8: "lookup nb_widgets_fixed [Key ''metadata'', Key ''widgets'', Key ''a''] = Some (JInt 1)"
    using 4 by (simp add: kept_def)
  from 3 4 6 7
  have 9: "added_state nb_widgets [Key ''metadata'', Key ''widgets'', Key ''state''] (JDict [])"
    by blast
  from nb_widgets_document fix_insert_nb_widgets 5 6 7 8 9 show ?thesis by blast
qed

section \<open>The backup path\<close>

lemma parent_name: "path_parent p @ path_name p = p"
  unfolding path_parent_def path_name_def
  by (metis rev_append rev_rev_ident takeWhile_dropWhile_id)

lemma name_no_slash: "CHR ''/'' \<notin> set (path_name p)"
  unfolding path_name_def using set_takeWhileD by fastforce

lemma suffix_of_name:
  assumes "suffix p \<noteq> []"
  shows "path_name p = take (length (path_name p) - length (suffix p)) (path_name p) @ suffix p"
proof -
  let ?n = "path_name p"
  let ?e = "takeWhile (\<lambda>c. c \<noteq> CHR ''.'') (rev ?n)"
  let ?d = "dropWhile (\<lambda>c. c \<noteq> CHR ''.'') (rev ?n)"
  from assms have dot: "CHR ''.'' \<in> set ?n" and s: "suffix p = CHR ''.'' # rev ?e"
    by (auto simp: suffix_def Let_def split: if_splits)
  from dot have "?d \<noteq> []" by (simp add: dropWhile_eq_Nil_conv) 
  then obtain t where d: "?d = CHR ''.'' # t"
    using hd_dropWhile[of "\<lambda>c. c \<noteq> CHR ''.''" "rev ?n"] by (cases ?d) auto
  have "rev ?n = ?e @ ?d" by simp
  then have "?n = rev ?d @ rev ?e" by (metis rev_append rev_rev_ident)
  then have n: "?n = rev t @ suffix p" using d s by simp
  then have "take (length ?n - length (suffix p)) ?n = rev t"
    by (metis append_eq_conv_conj length_append add_diff_cancel_right' length_rev)
  with n show ?thesis by simp
qed

lemma backup_path:
  assumes "suffix p = ''.ipynb''"
  shows "with_suffix p (suffix p @ ''.bak'') = Inr (p @ ''.bak'')"
proof -
  have ne: "suffix p \<noteq> []" using assms by simp
  from suffix_of_name[OF ne] have "path_name p \<noteq> []" using ne by auto
  moreover have "path_parent p @ take (length (path_name p) - length (suffix p)) (path_name p) @ suffix p @ ''.bak'' = p @ ''.bak''"
    using suffix_of_name[OF ne] parent_name[of p] by (metis append.assoc)
  ultimately show ?thesis using assms by (simp add: with_suffix_def Let_def)
qed

section \<open>The sample files under the library\<close>

lemma suffix_a: "suffix ''nb/a.ipynb'' = ''.ipynb''"
  by (simp add: suffix_def path_name_def)





lemma suffix_deep: "suffix ''nb/deep.ipynb'' = ''.ipynb''"
  by (simp add: suffix_def path_name_def)

lemma read_a: "read_text sample_lib sample_world ''nb/a.ipynb'' = Inr text_a"
  by (simp add: read_text_def sample_world_def)

lemma read_c: "read_text sample_lib sample_world ''nb/c.ipynb'' = Inr text_c"
  by (simp add: read_text_def sample_world_def)



lemma read_deep: "read_text sample_lib sample_world ''nb/deep.ipynb'' = Inr text_deep"
  by (simp add: read_text_def sample_world_def)


lemma read_linked_a: "read_text sample_lib linked_world ''nb/a.ipynb'' = Inr text_a"
  by (simp add: read_text_def linked_world_def)

lemma read_linked_bak: "read_text sample_lib linked_world ''nb/a.ipynb.bak'' = Inr text_a"
  by (simp add: read_text_def linked_world_def)

lemma loads_a: "loads sample_lib text_a = Inr tree_a"
  by (simp add: sample_lib_def)

lemma loads_c: "loads sample_lib text_c = Inr tree_c"
  by (simp add: sample_lib_def text_a_def text_c_def)

lemma loads_deep: "loads sample_lib text_deep = Inr tree_deep"
  by (simp add: sample_lib_def text_a_def text_c_def text_deep_def)



lemma dumps_a_fixed: "dumps sample_lib tree_a_fixed 2 = Inr text_a_fixed"
  by (simp add: sample_lib_def)

lemma dumps_deep_fixed: "dumps sample_lib tree_deep_fixed 2 = Inl RecursionError"
  by (simp add: sample_lib_def tree_deep_fixed_def tree_a_fixed_def)

lemma fix_tree_a: "fix_widgets_metadata False tree_a = Inr (True, tree_a_fixed)"
  by (simp add: tree_a_def tree_a_fixed_def fix_widgets_metadata_def fix_metadata_of_def
        fix_widgets_block_def is_None_def)

lemma fix_tree_c: "fix_widgets_metadata False tree_c = Inr (False, tree_c)"
  by (simp add: tree_c_def fix_widgets_metadata_def fix_metadata_of_def
        fix_widgets_block_def for_cells_def is_None_def)

lemma fix_tree_deep: "fix_widgets_metadata False tree_deep = Inr (True, tree_deep_fixed)"
  by (simp add: tree_deep_def tree_deep_fixed_def fix_widgets_metadata_def fix_metadata_of_def
        fix_widgets_block_def is_None_def)


lemma backup_a: "with_suffix ''nb/a.ipynb'' ''.ipynb.bak'' = Inr ''nb/a.ipynb.bak''"
  using backup_path[OF suffix_a] by (simp add: suffix_a)

section \<open>A batch is processed path by path\<close>


section \<open>Files that cannot be read or parsed\<close>




section \<open>Unchanged documents\<close>

text \<open>
  C8. For every path whose file is read and parsed and whose tree the fixer reports as
  unchanged, the loop body leaves the world as it is (no file changed, no call that
  changes the file system, nothing printed), raises nothing, and the batch goes on with
  the rest of the paths from that same world.
\<close>

theorem process_unchanged_no_file_operation:
  assumes "read_text lib w p = Inr text" and "loads lib text = Inr nb"
    and "fix_widgets_metadata remove_widgets nb = Inr (False, nb')"
  shows "process_path lib remove_widgets p w = (w, None) \<and>
         process_notebooks lib (p # ps) remove_widgets w =
           process_notebooks lib ps remove_widgets w"
proof -
  have "process_path lib remove_widgets p w = (w, None)"
    using assms by (simp add: process_path_def)
  then show ?thesis by simp
qed

theorem process_unchanged_no_file_operation_witness:
  "read_text sample_lib sample_world ''nb/c.ipynb'' = Inr text_c \<and>
   loads sample_lib text_c = Inr tree_c \<and>
   fix_widgets_metadata False tree_c = Inr (False, tree_c) \<and>
   process_path sample_lib False ''nb/c.ipynb'' sample_world = (sample_world, None) \<and>
   process_notebooks sample_lib [''nb/c.ipynb''] False sample_world = (sample_world, None)"
proof -
  from process_unchanged_no_file_operation[OF read_c loads_c fix_tree_c, of "[]"]
  have "process_path sample_lib False ''nb/c.ipynb'' sample_world = (sample_world, None)"
    "process_notebooks sample_lib [''nb/c.ipynb''] False sample_world = (sample_world, None)"
    by simp_all
  with read_c loads_c fix_tree_c show ?thesis by blast
qed

section \<open>Backup before write\<close>

lemma fold_max_acc: "(a::nat) \<le> fold max xs a"
proof (induction xs arbitrary: a)
  case Nil
  then show ?case by simp
next
  case (Cons y ys)
  have "a \<le> max y a" by simp
  also have "max y a \<le> fold max ys (max y a)" by (rule Cons.IH)
  finally show ?case by simp
qed

lemma fold_max_mem: "x \<in> set xs \<Longrightarrow> x \<le> fold max xs (a::nat)"
proof (induction xs arbitrary: a)
  case Nil
  then show ?case by simp
next
  case (Cons y ys)
  show ?case
  proof (cases "x = y")
    case True
    have "y \<le> max y a" by simp
    also have "max y a \<le> fold max ys (max y a)" by (rule fold_max_acc)
    finally show ?thesis using True by simp
  next
    case False
    with Cons.prems have "x \<in> set ys" by simp
    from Cons.IH[OF this] show ?thesis by simp
  qed
qed

lemma fresh_inode_new: "map_of (links w) p = Some i \<Longrightarrow> i < fresh_inode w"
proof -
  assume "map_of (links w) p = Some i"
  then have "(p, i) \<in> set (links w)" by (rule map_of_SomeD)
  then have "i \<in> set (map snd (links w))" by force
  from fold_max_mem[OF this, of 0] show ?thesis by (simp add: fresh_inode_def)
qed

text \<open>
  What holds when the backup name is not already a name of the notebook's own file: the
  backup path is the path with \<open>.bak\<close> appended; the rename succeeds, and in the world
  right after it the backup path reads as the original text and the original name is
  gone; if the serialization with indent 2 raises, the loop is left in that world; if
  not, the calls made are the rename followed by the write of the new text to the
  original path, the backup path still reads as the original text, the original path
  reads as the new text, and one line naming both paths is printed.
\<close>

lemma process_backup_then_write:
  assumes "suffix p = ''.ipynb''"
    and "read_text lib w p = Inr text" and "loads lib text = Inr nb"
    and "fix_widgets_metadata remove_widgets nb = Inr (True, nb')"
    and "map_of (links w) (p @ ''.bak'') \<noteq> map_of (links w) p"
  shows "\<exists>w1.
           with_suffix p (suffix p @ ''.bak'') = Inr (p @ ''.bak'') \<and>
           replace p (p @ ''.bak'') w = Inr w1 \<and>
           read_text lib w1 (p @ ''.bak'') = Inr text \<and> map_of (links w1) p = None \<and>
           calls w1 = calls w @ [Replace p (p @ ''.bak'')] \<and> out w1 = out w \<and>
           (case dumps lib nb' 2 of
              Inl e \<Rightarrow> process_path lib remove_widgets p w = (w1, Some e)
            | Inr new_text \<Rightarrow>
                (\<exists>w'. process_path lib remove_widgets p w = (w', None) \<and>
                      calls w' = calls w @ [Replace p (p @ ''.bak''), WriteText p new_text] \<and>
                      read_text lib w' (p @ ''.bak'') = Inr text \<and>
                      read_text lib w' p = Inr new_text \<and>
                      out w' = out w @ [''Fixed widgets metadata in '' @ p @
                                        '', backup saved to '' @ p @ ''.bak'']))"
proof -
  from assms(2) obtain i where i: "map_of (links w) p = Some i" "inodes w i = Text text"
    by (auto simp: read_text_def split: option.splits content.splits)
  let ?l1 = "AList.update (p @ ''.bak'') i (AList.delete p (links w))"
  let ?w1 = "w\<lparr>links := ?l1, calls := calls w @ [Replace p (p @ ''.bak'')]\<rparr>"
  have r: "replace p (p @ ''.bak'') w = Inr ?w1"
    using i(1) assms(5) by (simp add: replace_def)
  have b: "with_suffix p (suffix p @ ''.bak'') = Inr (p @ ''.bak'')"
    by (rule backup_path[OF assms(1)])
  have lb: "map_of ?l1 (p @ ''.bak'') = Some i" by (simp add: update_conv')
  have lp: "map_of ?l1 p = None" by (simp add: update_conv' delete_conv')
  have 1: "read_text lib ?w1 (p @ ''.bak'') = Inr text"
    using lb i(2) by (simp add: read_text_def)
  have 2: "map_of (links ?w1) p = None" using lp by simp
  have 3: "calls ?w1 = calls w @ [Replace p (p @ ''.bak'')]" "out ?w1 = out w" by simp_all
  have 4: "case dumps lib nb' 2 of
              Inl e \<Rightarrow> process_path lib remove_widgets p w = (?w1, Some e)
            | Inr new_text \<Rightarrow>
                (\<exists>w'. process_path lib remove_widgets p w = (w', None) \<and>
                      calls w' = calls w @ [Replace p (p @ ''.bak''), WriteText p new_text] \<and>
                      read_text lib w' (p @ ''.bak'') = Inr text \<and>
                      read_text lib w' p = Inr new_text \<and>
                      out w' = out w @ [''Fixed widgets metadata in '' @ p @
                                        '', backup saved to '' @ p @ ''.bak''])"
  proof (cases "dumps lib nb' 2")
    case (Inl e)
    then show ?thesis using assms(1-4) b r by (simp add: process_path_def)
  next
    case (Inr new_text)
    let ?j = "fresh_inode ?w1"
    have j: "i < ?j" by (rule fresh_inode_new[of ?w1 "p @ ''.bak''"]) (simp add: lb)
    let ?w2 = "?w1\<lparr>links := AList.update p ?j ?l1, inodes := (inodes w)(?j := Text new_text),
                   calls := calls w @ [Replace p (p @ ''.bak''), WriteText p new_text]\<rparr>"
    have wt: "write_text p new_text ?w1 = ?w2"
      using lp by (simp add: write_text_def Let_def)
    let ?w' = "print (''Fixed widgets metadata in '' @ p @ '', backup saved to '' @ p @ ''.bak'') ?w2"
    have po: "process_path lib remove_widgets p w = (?w', None)"
      using assms(1-4) b r Inr wt by (simp add: process_path_def)
    have c: "calls ?w' = calls w @ [Replace p (p @ ''.bak''), WriteText p new_text]"
      by (simp add: print_def)
    have rb: "read_text lib ?w' (p @ ''.bak'') = Inr text"
      using lb i(2) j by (simp add: read_text_def print_def update_conv')
    have rp: "read_text lib ?w' p = Inr new_text"
      by (simp add: read_text_def print_def update_conv')
    have o: "out ?w' = out w @ [''Fixed widgets metadata in '' @ p @
                                        '', backup saved to '' @ p @ ''.bak'']"
      by (simp add: print_def)
    from po c rb rp o show ?thesis using Inr by auto
  qed
  from b r 1 2 3 4 show ?thesis by blast
qed

lemma process_sample_a:
  "snd (process_path sample_lib False ''nb/a.ipynb'' sample_world) = None \<and>
   calls (fst (process_path sample_lib False ''nb/a.ipynb'' sample_world)) =
     [Replace ''nb/a.ipynb'' ''nb/a.ipynb.bak'', WriteText ''nb/a.ipynb'' text_a_fixed] \<and>
   read_text sample_lib (fst (process_path sample_lib False ''nb/a.ipynb'' sample_world))
     ''nb/a.ipynb.bak'' = Inr text_a \<and>
   read_text sample_lib (fst (process_path sample_lib False ''nb/a.ipynb'' sample_world))
     ''nb/a.ipynb'' = Inr text_a_fixed"
proof -
  have n: "map_of (links sample_world) (''nb/a.ipynb'' @ ''.bak'') \<noteq>
           map_of (links sample_world) ''nb/a.ipynb''"
    by (simp add: sample_world_def)
  have c: "calls sample_world = []" by (simp add: sample_world_def)
  from process_backup_then_write[OF suffix_a read_a loads_a fix_tree_a n]
  obtain w' where "process_path sample_lib False ''nb/a.ipynb'' sample_world = (w', None)"
    "calls w' = calls sample_world @
       [Replace ''nb/a.ipynb'' (''nb/a.ipynb'' @ ''.bak''), WriteText ''nb/a.ipynb'' text_a_fixed]"
    "read_text sample_lib w' (''nb/a.ipynb'' @ ''.bak'') = Inr text_a"
    "read_text sample_lib w' ''nb/a.ipynb'' = Inr text_a_fixed"
    by (auto simp: dumps_a_fixed)
  then show ?thesis by (simp add: c)
qed

lemma process_sample_deep:
  "snd (process_path sample_lib False ''nb/deep.ipynb'' sample_world) = Some RecursionError \<and>
   calls (fst (process_path sample_lib False ''nb/deep.ipynb'' sample_world)) =
     [Replace ''nb/deep.ipynb'' ''nb/deep.ipynb.bak''] \<and>
   read_text sample_lib (fst (process_path sample_lib False ''nb/deep.ipynb'' sample_world))
     ''nb/deep.ipynb.bak'' = Inr text_deep"
proof -
  have n: "map_of (links sample_world) (''nb/deep.ipynb'' @ ''.bak'') \<noteq>
           map_of (links sample_world) ''nb/deep.ipynb''"
    by (simp add: sample_world_def)
  have c: "calls sample_world = []" by (simp add: sample_world_def)
  from process_backup_then_write[OF suffix_deep read_deep loads_deep fix_tree_deep n]
  obtain w1 where "process_path sample_lib False ''nb/deep.ipynb'' sample_world =
       (w1, Some RecursionError)"
    "calls w1 = calls sample_world @ [Replace ''nb/deep.ipynb'' (''nb/deep.ipynb'' @ ''.bak'')]"
    "read_text sample_lib w1 (''nb/deep.ipynb'' @ ''.bak'') = Inr text_deep"
    by (auto simp: dumps_deep_fixed)
  then show ?thesis by (simp add: c)
qed

lemma text_a_changed: "text_a_fixed \<noteq> text_a"
  by (simp add: text_a_fixed_def text_a_def)

text \<open>
  C6. The claim: for every path the batch processor changes, the original file is first
  renamed to the path with the backup suffix appended, only then is the mutated tree
  serialized with indent 2 and written to the original path, and the original bytes are
  never lost. The code breaks it when the backup name is already a hard link of the
  notebook: the rename then does nothing, and the write goes into the one file both
  names refer to. On that directory the loop body raises nothing, makes the rename and
  the write in this order, leaves the names as they were, and afterwards both the
  notebook and its backup read as the new text, which is not the original text.
\<close>

theorem process_hard_linked_backup_loses_original:
  "read_text sample_lib linked_world ''nb/a.ipynb'' = Inr text_a \<and>
   read_text sample_lib linked_world ''nb/a.ipynb.bak'' = Inr text_a \<and>
   snd (process_path sample_lib False ''nb/a.ipynb'' linked_world) = None \<and>
   calls (fst (process_path sample_lib False ''nb/a.ipynb'' linked_world)) =
     [Replace ''nb/a.ipynb'' ''nb/a.ipynb.bak'', WriteText ''nb/a.ipynb'' text_a_fixed] \<and>
   links (fst (process_path sample_lib False ''nb/a.ipynb'' linked_world)) = links linked_world \<and>
   read_text sample_lib (fst (process_path sample_lib False ''nb/a.ipynb'' linked_world))
     ''nb/a.ipynb'' = Inr text_a_fixed \<and>
   read_text sample_lib (fst (process_path sample_lib False ''nb/a.ipynb'' linked_world))
     ''nb/a.ipynb.bak'' = Inr text_a_fixed \<and>
   text_a_fixed \<noteq> text_a"
proof -
  have r: "replace ''nb/a.ipynb'' ''nb/a.ipynb.bak'' linked_world =
             Inr (linked_world\<lparr>calls := [Replace ''nb/a.ipynb'' ''nb/a.ipynb.bak'']\<rparr>)"
    by (simp add: replace_def linked_world_def)
  have w: "write_text ''nb/a.ipynb'' text_a_fixed
             (linked_world\<lparr>calls := [Replace ''nb/a.ipynb'' ''nb/a.ipynb.bak'']\<rparr>) =
           linked_world\<lparr>inodes := (inodes linked_world)(1 := Text text_a_fixed),
                        calls := [Replace ''nb/a.ipynb'' ''nb/a.ipynb.bak'',
                                  WriteText ''nb/a.ipynb'' text_a_fixed]\<rparr>"
    by (simp add: write_text_def linked_world_def)
  have p: "process_path sample_lib False ''nb/a.ipynb'' linked_world =
             (print (''Fixed widgets metadata in nb/a.ipynb, backup saved to nb/a.ipynb.bak'')
                (linked_world\<lparr>inodes := (inodes linked_world)(1 := Text text_a_fixed),
                        calls := [Replace ''nb/a.ipynb'' ''nb/a.ipynb.bak'',
                                  WriteText ''nb/a.ipynb'' text_a_fixed]\<rparr>), None)"
    using suffix_a read_linked_a loads_a fix_tree_a backup_a r dumps_a_fixed w
    by (simp add: process_path_def)
  have 1: "snd (process_path sample_lib False ''nb/a.ipynb'' linked_world) = None"
    unfolding p by simp
  have 2: "calls (fst (process_path sample_lib False ''nb/a.ipynb'' linked_world)) =
     [Replace ''nb/a.ipynb'' ''nb/a.ipynb.bak'', WriteText ''nb/a.ipynb'' text_a_fixed]"
    unfolding p by (simp add: print_def)
  have 3: "links (fst (process_path sample_lib False ''nb/a.ipynb'' linked_world)) =
     links linked_world"
    unfolding p by (simp add: print_def)
  have 4: "read_text sample_lib (fst (process_path sample_lib False ''nb/a.ipynb'' linked_world))
     ''nb/a.ipynb'' = Inr text_a_fixed"
    unfolding p by (simp add: print_def read_text_def linked_world_def)
  have 5: "read_text sample_lib (fst (process_path sample_lib False ''nb/a.ipynb'' linked_world))
     ''nb/a.ipynb.bak'' = Inr text_a_fixed"
    unfolding p by (simp add: print_def read_text_def linked_world_def)
  from read_linked_a read_linked_bak 1 2 3 4 5 text_a_changed show ?thesis by blast
qed

end
